theory Spec2Isabelle
  imports Complex_Main
begin

section \<open>Data model\<close>

text \<open>
  The trainer is one TypeScript module (the component \<open>App\<close> with its helper functions)
  and the catalog of opening presets. Its \<open>number\<close> values are modelled by what they
  hold: the win, draw and loss counts that the statistics provider reports, and sums of
  them, are naturals; rates, percentages and confidence scores are reals, computed exactly
  in the functions of the controller (the rounding of doubles is written out separately, in
  the section on the rounding of the rates; \<open>NaN\<close> and the infinities are not
  modelled); ranks, list
  indices, counters and the session identifier are naturals; an Elo rating is an integer.
  Strings are lists of characters. A value that may be \<open>null\<close> is an \<open>option\<close>.
\<close>

datatype PlayerColor = W | B

record OpeningPreset =
  id :: string
  name :: string
  description :: string
  seedMoves :: "string list"
  userColor :: PlayerColor

datatype SpeedOption = Blitz | Rapid | Classical

record ExplorerMove =
  uci :: string
  san :: string
  white :: nat
  draws :: nat
  black :: nat

record ExplorerResponse =
  white :: nat
  draws :: nat
  black :: nat
  moves :: "ExplorerMove list"

record SessionConfig =
  openingPreset :: OpeningPreset
  elo :: int
  eloRatings :: "int list"
  speed :: SpeedOption
  botMoveThresholdPercent :: real
  alwaysPlayMostCommonMove :: bool

text \<open>The anonymous \<open>{ move, games }\<close> objects of \<open>buildRankedMoves\<close>.\<close>

record BaseMove =
  move :: ExplorerMove
  games :: nat

record WeightedMove =
  move :: ExplorerMove
  games :: nat
  rate :: real

record RankedMove =
  rank :: nat
  uci :: string
  san :: string
  games :: nat
  rate :: real

datatype MoveGrade = Brilliant | Sound | Miss

record MoveReview =
  sideToMove :: PlayerColor
  playedSan :: string
  playedRank :: "nat option"
  playedRate :: real
  grade :: MoveGrade
  bestMove :: "RankedMove option"
  alternatives :: "RankedMove list"
  rankedMoves :: "RankedMove list"
  totalGames :: nat

text \<open>
  A move as the rule engine (chess.js) reports it. The source reads the fields
  \<open>color\<close>, \<open>from\<close>, \<open>to\<close>, \<open>promotion\<close> and \<open>san\<close>; \<open>from\<close> and \<open>to\<close> are
  spelled \<open>fromSquare\<close> and \<open>toSquare\<close> here.
\<close>

record Move =
  color :: PlayerColor
  fromSquare :: string
  toSquare :: string
  promotion :: "string option"
  san :: string

text \<open>The argument object \<open>{ from, to, promotion? }\<close> of the engine's \<open>move\<close>.\<close>

type_synonym MoveInput = "string \<times> string \<times> string option"

definition ALTERNATIVE_RATE :: real where
  "ALTERNATIVE_RATE = 1 / 10"

section \<open>Coordinate-move tokens\<close>

text \<open>
  \<open>String.prototype.toLowerCase\<close> on ASCII text, which is what tokens and square names
  are made of: the 26 capital letters are replaced, every other character is kept.
\<close>

definition lowerChar :: "char \<Rightarrow> char" where
  "lowerChar c =
     (case map_of (zip ''ABCDEFGHIJKLMNOPQRSTUVWXYZ'' ''abcdefghijklmnopqrstuvwxyz'') c of
        Some l \<Rightarrow> l
      | None \<Rightarrow> c)"

definition toLowerCase :: "string \<Rightarrow> string" where
  "toLowerCase s = map lowerChar s"

definition normalizeCastlingUci :: "string \<Rightarrow> string" where
  "normalizeCastlingUci u =
     (let normalized = toLowerCase u in
      if normalized = ''e1h1'' then ''e1g1''
      else if normalized = ''e1a1'' then ''e1c1''
      else if normalized = ''e8h8'' then ''e8g8''
      else if normalized = ''e8a8'' then ''e8c8''
      else normalized)"

definition parseUci :: "string \<Rightarrow> MoveInput" where
  "parseUci u =
     (let normalizedUci = normalizeCastlingUci u;
          from = take 2 normalizedUci;
          to = take 2 (drop 2 normalizedUci);
          promo = (if length normalizedUci > 4 then Some (take 1 (drop 4 normalizedUci)) else None)
      in (from, to, promo))"

definition toUci :: "Move \<Rightarrow> string" where
  "toUci m =
     normalizeCastlingUci
       (fromSquare m @ toSquare m @ (case promotion m of None \<Rightarrow> [] | Some p \<Rightarrow> p))"

definition colorLabel :: "PlayerColor \<Rightarrow> string" where
  "colorLabel c = (if c = W then ''White'' else ''Black'')"

definition opponentColor :: "PlayerColor \<Rightarrow> PlayerColor" where
  "opponentColor c = (if c = W then B else W)"

section \<open>Move statistics engine\<close>

definition buildRankedMoves :: "ExplorerResponse \<Rightarrow> RankedMove list" where
  "buildRankedMoves explorer =
     (let totalAtPosition =
            ExplorerResponse.white explorer + ExplorerResponse.draws explorer
              + ExplorerResponse.black explorer;
          baseMoves =
            sort_key (\<lambda>entry. - int (BaseMove.games entry))
              (filter (\<lambda>entry. BaseMove.games entry > 0)
                (map (\<lambda>m. \<lparr>BaseMove.move = m,
                             BaseMove.games =
                               ExplorerMove.white m + ExplorerMove.draws m + ExplorerMove.black m\<rparr>)
                  (moves explorer)));
          denominator =
            (if totalAtPosition > 0 then totalAtPosition
             else foldl (\<lambda>sum entry. sum + BaseMove.games entry) 0 baseMoves)
      in map (\<lambda>(index, entry).
                \<lparr>rank = index + 1,
                 RankedMove.uci = normalizeCastlingUci (ExplorerMove.uci (BaseMove.move entry)),
                 RankedMove.san = ExplorerMove.san (BaseMove.move entry),
                 RankedMove.games = BaseMove.games entry,
                 RankedMove.rate =
                   (if denominator > 0 then real (BaseMove.games entry) / real denominator
                    else 0)\<rparr>)
           (enumerate 0 baseMoves))"

record Choice =
  selected :: "ExplorerMove option"
  selectedRate :: real
  usedFallbackPool :: bool

text \<open>
  The roulette walk \<open>for (const entry of pool) { threshold -= entry.games; ... }\<close>;
  \<open>None\<close> when the loop ends without returning.
\<close>

fun walkPool :: "real \<Rightarrow> WeightedMove list \<Rightarrow> WeightedMove option" where
  "walkPool threshold [] = None"
| "walkPool threshold (entry # rest) =
     (let threshold' = threshold - real (WeightedMove.games entry) in
      if threshold' \<le> 0 then Some entry else walkPool threshold' rest)"

text \<open>
  \<open>chooseWeightedMove\<close>. The value of \<open>Math.random()\<close>, a number in \<open>[0, 1)\<close>, is the
  first argument.
\<close>

definition chooseWeightedMove :: "real \<Rightarrow> ExplorerResponse \<Rightarrow> real \<Rightarrow> bool \<Rightarrow> Choice" where
  "chooseWeightedMove random explorer minMoveRatePercent alwaysMostCommon =
     (let totalAtPosition =
            ExplorerResponse.white explorer + ExplorerResponse.draws explorer
              + ExplorerResponse.black explorer;
          unrated =
            filter (\<lambda>entry. WeightedMove.games entry > 0)
              (map (\<lambda>m. \<lparr>WeightedMove.move = m,
                           WeightedMove.games =
                             ExplorerMove.white m + ExplorerMove.draws m + ExplorerMove.black m,
                           WeightedMove.rate = 0\<rparr>)
                (moves explorer));
          denominator =
            (if totalAtPosition > 0 then totalAtPosition
             else foldl (\<lambda>sum entry. sum + WeightedMove.games entry) 0 unrated);
          weightedMoves =
            map (\<lambda>entry. entry\<lparr>WeightedMove.rate :=
                                  (if denominator > 0
                                   then real (WeightedMove.games entry) / real denominator
                                   else 0)\<rparr>)
              unrated
      in if alwaysMostCommon then
           (case weightedMoves of
              [] \<Rightarrow> \<lparr>selected = None, selectedRate = 0, usedFallbackPool = False\<rparr>
            | first # rest \<Rightarrow>
                (let mostCommon =
                       foldl (\<lambda>best current.
                                if WeightedMove.games current > WeightedMove.games best
                                then current else best)
                         first rest
                 in \<lparr>selected = Some (WeightedMove.move mostCommon),
                     selectedRate = WeightedMove.rate mostCommon,
                     usedFallbackPool = False\<rparr>))
         else
           (let minRate = max 0 minMoveRatePercent / 100;
                filtered = filter (\<lambda>entry. WeightedMove.rate entry > minRate) weightedMoves;
                pool = (if length filtered > 0 then filtered else weightedMoves)
            in case pool of
                 [] \<Rightarrow> \<lparr>selected = None, selectedRate = 0, usedFallbackPool = False\<rparr>
               | first # rest \<Rightarrow>
                   (let totalWeight = foldl (\<lambda>sum entry. sum + WeightedMove.games entry) 0 pool
                    in if totalWeight \<le> 0 then
                         \<lparr>selected = Some (WeightedMove.move first),
                          selectedRate = WeightedMove.rate first,
                          usedFallbackPool = (length filtered = 0)\<rparr>
                       else
                         (case walkPool (random * real totalWeight) pool of
                            Some entry \<Rightarrow>
                              \<lparr>selected = Some (WeightedMove.move entry),
                               selectedRate = WeightedMove.rate entry,
                               usedFallbackPool = (length filtered = 0)\<rparr>
                          | None \<Rightarrow>
                              \<lparr>selected = Some (WeightedMove.move (last pool)),
                               selectedRate = WeightedMove.rate (last pool),
                               usedFallbackPool = (length filtered = 0)\<rparr>))))"

definition buildMoveReview :: "RankedMove list \<Rightarrow> Move \<Rightarrow> PlayerColor \<Rightarrow> MoveReview" where
  "buildMoveReview ranked playedMove side =
     (let playedUci = toUci playedMove;
          playedEntry = find (\<lambda>entry. RankedMove.uci entry = playedUci) ranked;
          playedRank' = map_option rank playedEntry;
          playedRate' = (case playedEntry of None \<Rightarrow> 0 | Some entry \<Rightarrow> RankedMove.rate entry);
          topRate = (case ranked of [] \<Rightarrow> 0 | leader # _ \<Rightarrow> RankedMove.rate leader);
          grade' =
            (if playedEntry \<noteq> None \<and> topRate - playedRate' \<le> 5 / 100 then Brilliant
             else if playedRate' \<ge> ALTERNATIVE_RATE then Sound
             else Miss);
          bestMove' = (case ranked of [] \<Rightarrow> None | leader # _ \<Rightarrow> Some leader);
          alternatives' =
            filter (\<lambda>entry. rank entry \<noteq> 1 \<and> RankedMove.rate entry \<ge> ALTERNATIVE_RATE) ranked;
          totalGames' = foldl (\<lambda>sum entry. sum + RankedMove.games entry) 0 ranked
      in \<lparr>sideToMove = side,
          playedSan = Move.san playedMove,
          playedRank = playedRank',
          playedRate = playedRate',
          grade = grade',
          bestMove = bestMove',
          alternatives = alternatives',
          rankedMoves = ranked,
          totalGames = totalGames'\<rparr>)"

definition getExplorerTotalGames :: "ExplorerResponse \<Rightarrow> nat" where
  "getExplorerTotalGames explorer =
     (let aggregate =
            ExplorerResponse.white explorer + ExplorerResponse.draws explorer
              + ExplorerResponse.black explorer
      in if aggregate > 0 then aggregate
         else foldl (\<lambda>sum m. sum + ExplorerMove.white m + ExplorerMove.draws m + ExplorerMove.black m)
                0 (moves explorer))"

definition interpolateLogScale :: "real \<Rightarrow> real \<Rightarrow> real \<Rightarrow> real \<Rightarrow> real \<Rightarrow> real" where
  "interpolateLogScale v lowGames highGames lowPercent highPercent =
     (let clampedValue = min highGames (max lowGames v);
          lowLog = log 10 lowGames;
          highLog = log 10 highGames;
          valueLog = log 10 clampedValue
      in if highLog = lowLog then highPercent
         else (let ratio = (valueLog - lowLog) / (highLog - lowLog)
               in lowPercent + ratio * (highPercent - lowPercent)))"

definition accuracyFromGames :: "real \<Rightarrow> real" where
  "accuracyFromGames sampleSize =
     (if sampleSize \<ge> 10000 then 100
      else if sampleSize \<ge> 1000 then interpolateLogScale sampleSize 1000 10000 50 100
      else if sampleSize \<ge> 100 then interpolateLogScale sampleSize 100 1000 25 50
      else if sampleSize \<ge> 11 then interpolateLogScale sampleSize 11 100 (99 / 100) 25
      else if sampleSize \<le> 10 then 1
      else 100)"

text \<open>
  The guard of \<open>accuracyFromGames\<close> that decides a given sample size, in the order of the
  source's \<open>if\<close> statements; \<open>Fallthrough\<close> is the final \<open>return 100\<close>.
\<close>

datatype AccuracyBranch =
  AtLeast10000 | AtLeast1000 | AtLeast100 | AtLeast11 | AtMost10 | Fallthrough

definition accuracyBranch :: "real \<Rightarrow> AccuracyBranch" where
  "accuracyBranch sampleSize =
     (if sampleSize \<ge> 10000 then AtLeast10000
      else if sampleSize \<ge> 1000 then AtLeast1000
      else if sampleSize \<ge> 100 then AtLeast100
      else if sampleSize \<ge> 11 then AtLeast11
      else if sampleSize \<le> 10 then AtMost10
      else Fallthrough)"

definition branchValue :: "AccuracyBranch \<Rightarrow> real \<Rightarrow> real" where
  "branchValue b sampleSize =
     (case b of
        AtLeast10000 \<Rightarrow> 100
      | AtLeast1000 \<Rightarrow> interpolateLogScale sampleSize 1000 10000 50 100
      | AtLeast100 \<Rightarrow> interpolateLogScale sampleSize 100 1000 25 50
      | AtLeast11 \<Rightarrow> interpolateLogScale sampleSize 11 100 (99 / 100) 25
      | AtMost10 \<Rightarrow> 1
      | Fallthrough \<Rightarrow> 100)"

section \<open>The rounding of the rates\<close>

text \<open>
  Three operations of the statistics functions leave the integers:
  \<open>entry.games / denominator\<close>, \<open>Math.max(0, minMoveRatePercent) / 100\<close> and
  \<open>Math.random() * totalWeight\<close>, the last followed by the subtractions
  \<open>threshold -= entry.games\<close>. The program computes them in double arithmetic, which
  rounds each result. Below are \<open>buildRankedMoves\<close> and \<open>chooseWeightedMove\<close> once more
  with that rounding written out: \<open>fl\<close> is the rounding function of the arithmetic, applied
  to the exact result of each of these operations. The sums of game counts are sums of
  integers, exact in doubles below 2^53, and stay unrounded. With the identity for \<open>fl\<close>
  these are the functions above.
\<close>

definition buildRankedMovesRounded :: "(real \<Rightarrow> real) \<Rightarrow> ExplorerResponse \<Rightarrow> RankedMove list" where
  "buildRankedMovesRounded fl explorer =
     (let totalAtPosition =
            ExplorerResponse.white explorer + ExplorerResponse.draws explorer
              + ExplorerResponse.black explorer;
          baseMoves =
            sort_key (\<lambda>entry. - int (BaseMove.games entry))
              (filter (\<lambda>entry. BaseMove.games entry > 0)
                (map (\<lambda>m. \<lparr>BaseMove.move = m,
                             BaseMove.games =
                               ExplorerMove.white m + ExplorerMove.draws m + ExplorerMove.black m\<rparr>)
                  (moves explorer)));
          denominator =
            (if totalAtPosition > 0 then totalAtPosition
             else foldl (\<lambda>sum entry. sum + BaseMove.games entry) 0 baseMoves)
      in map (\<lambda>(index, entry).
                \<lparr>rank = index + 1,
                 RankedMove.uci = normalizeCastlingUci (ExplorerMove.uci (BaseMove.move entry)),
                 RankedMove.san = ExplorerMove.san (BaseMove.move entry),
                 RankedMove.games = BaseMove.games entry,
                 RankedMove.rate =
                   (if denominator > 0 then fl (real (BaseMove.games entry) / real denominator)
                    else 0)\<rparr>)
           (enumerate 0 baseMoves))"

fun walkPoolRounded :: "(real \<Rightarrow> real) \<Rightarrow> real \<Rightarrow> WeightedMove list \<Rightarrow> WeightedMove option" where
  "walkPoolRounded fl threshold [] = None"
| "walkPoolRounded fl threshold (entry # rest) =
     (let threshold' = fl (threshold - real (WeightedMove.games entry)) in
      if threshold' \<le> 0 then Some entry else walkPoolRounded fl threshold' rest)"

definition chooseWeightedMoveRounded ::
    "(real \<Rightarrow> real) \<Rightarrow> real \<Rightarrow> ExplorerResponse \<Rightarrow> real \<Rightarrow> bool \<Rightarrow> Choice" where
  "chooseWeightedMoveRounded fl random explorer minMoveRatePercent alwaysMostCommon =
     (let totalAtPosition =
            ExplorerResponse.white explorer + ExplorerResponse.draws explorer
              + ExplorerResponse.black explorer;
          unrated =
            filter (\<lambda>entry. WeightedMove.games entry > 0)
              (map (\<lambda>m. \<lparr>WeightedMove.move = m,
                           WeightedMove.games =
                             ExplorerMove.white m + ExplorerMove.draws m + ExplorerMove.black m,
                           WeightedMove.rate = 0\<rparr>)
                (moves explorer));
          denominator =
            (if totalAtPosition > 0 then totalAtPosition
             else foldl (\<lambda>sum entry. sum + WeightedMove.games entry) 0 unrated);
          weightedMoves =
            map (\<lambda>entry. entry\<lparr>WeightedMove.rate :=
                                  (if denominator > 0
                                   then fl (real (WeightedMove.games entry) / real denominator)
                                   else 0)\<rparr>)
              unrated
      in if alwaysMostCommon then
           (case weightedMoves of
              [] \<Rightarrow> \<lparr>selected = None, selectedRate = 0, usedFallbackPool = False\<rparr>
            | first # rest \<Rightarrow>
                (let mostCommon =
                       foldl (\<lambda>best current.
                                if WeightedMove.games current > WeightedMove.games best
                                then current else best)
                         first rest
                 in \<lparr>selected = Some (WeightedMove.move mostCommon),
                     selectedRate = WeightedMove.rate mostCommon,
                     usedFallbackPool = False\<rparr>))
         else
           (let minRate = fl (max 0 minMoveRatePercent / 100);
                filtered = filter (\<lambda>entry. WeightedMove.rate entry > minRate) weightedMoves;
                pool = (if length filtered > 0 then filtered else weightedMoves)
            in case pool of
                 [] \<Rightarrow> \<lparr>selected = None, selectedRate = 0, usedFallbackPool = False\<rparr>
               | first # rest \<Rightarrow>
                   (let totalWeight = foldl (\<lambda>sum entry. sum + WeightedMove.games entry) 0 pool
                    in if totalWeight \<le> 0 then
                         \<lparr>selected = Some (WeightedMove.move first),
                          selectedRate = WeightedMove.rate first,
                          usedFallbackPool = (length filtered = 0)\<rparr>
                       else
                         (case walkPoolRounded fl (fl (random * real totalWeight)) pool of
                            Some entry \<Rightarrow>
                              \<lparr>selected = Some (WeightedMove.move entry),
                               selectedRate = WeightedMove.rate entry,
                               usedFallbackPool = (length filtered = 0)\<rparr>
                          | None \<Rightarrow>
                              \<lparr>selected = Some (WeightedMove.move (last pool)),
                               selectedRate = WeightedMove.rate (last pool),
                               usedFallbackPool = (length filtered = 0)\<rparr>))))"

text \<open>
  The rounding of double arithmetic: to the nearest number with 53 significant bits, ties to
  the even one. The exponent range is not bounded here, so overflow to infinity and gradual
  underflow are left out; the rates and thresholds of the program are far from both.
\<close>

definition nearestEven :: "real \<Rightarrow> int" where
  "nearestEven y =
     (let m = \<lfloor>y\<rfloor>;
          r = y - of_int m
      in if r < 1 / 2 then m else if r > 1 / 2 then m + 1 else if even m then m else m + 1)"

definition roundToDouble :: "real \<Rightarrow> real" where
  "roundToDouble x =
     (if x = 0 then 0
      else (let e = \<lfloor>log 2 \<bar>x\<bar>\<rfloor>;
                q = (2::real) powr (of_int e - 52)
            in sgn x * of_int (nearestEven (\<bar>x\<bar> / q)) * q))"

section \<open>Accuracy tracker\<close>

record AccuracyTracker =
  sum :: real
  count :: nat
  display :: real

definition initialAccuracyTracker :: AccuracyTracker where
  "initialAccuracyTracker = \<lparr>sum = 0, count = 0, display = 100\<rparr>"

text \<open>The state updater passed to \<open>setAccuracyTracker\<close> by \<open>recordAccuracySample\<close>.\<close>

definition recordSample :: "real \<Rightarrow> AccuracyTracker \<Rightarrow> AccuracyTracker" where
  "recordSample sample previous =
     (let sum' = sum previous + sample;
          count' = count previous + 1;
          average = sum' / real count'
      in \<lparr>sum = sum', count = count', display = min (display previous) average\<rparr>)"

section \<open>Opening presets\<close>
text \<open>The catalog \<open>OPENINGS\<close>, entry by entry as in the source.\<close>
definition OPENINGS :: "OpeningPreset list" where
  "OPENINGS = [
     \<lparr>id = ''ruy-lopez'', name = ''Ruy Lopez'', description = ''1. e4 e5 2. Nf3 Nc6 3. Bb5 a6'',
      seedMoves = [''e2e4'', ''e7e5'', ''g1f3'', ''b8c6'', ''f1b5'', ''a7a6''], userColor = W\<rparr>,
     \<lparr>id = ''italian-game'', name = ''Italian Game'', description = ''1. e4 e5 2. Nf3 Nc6 3. Bc4 Bc5'',
      seedMoves = [''e2e4'', ''e7e5'', ''g1f3'', ''b8c6'', ''f1c4'', ''f8c5''], userColor = W\<rparr>,
     \<lparr>id = ''scotch-game'', name = ''Scotch Game'', description = ''1. e4 e5 2. Nf3 Nc6 3. d4 exd4'',
      seedMoves = [''e2e4'', ''e7e5'', ''g1f3'', ''b8c6'', ''d2d4'', ''e5d4''], userColor = W\<rparr>,
     \<lparr>id = ''four-knights-game'', name = ''Four Knights Game'', description = ''1. e4 e5 2. Nf3 Nc6 3. Nc3 Nf6'',
      seedMoves = [''e2e4'', ''e7e5'', ''g1f3'', ''b8c6'', ''b1c3'', ''g8f6''], userColor = W\<rparr>,
     \<lparr>id = ''kings-gambit'', name = ''King's Gambit'', description = ''1. e4 e5 2. f4'',
      seedMoves = [''e2e4'', ''e7e5'', ''f2f4''], userColor = W\<rparr>,
     \<lparr>id = ''queens-gambit'', name = ''Queen's Gambit'', description = ''1. d4 d5 2. c4'',
      seedMoves = [''d2d4'', ''d7d5'', ''c2c4''], userColor = W\<rparr>,
     \<lparr>id = ''london-system'', name = ''London System'', description = ''1. d4 d5 2. Nf3 Nf6 3. Bf4 e6'',
      seedMoves = [''d2d4'', ''d7d5'', ''g1f3'', ''g8f6'', ''c1f4'', ''e7e6''], userColor = W\<rparr>,
     \<lparr>id = ''english-opening'', name = ''English Opening'', description = ''1. c4 e5 2. Nc3 Nf6'',
      seedMoves = [''c2c4'', ''e7e5'', ''b1c3'', ''g8f6''], userColor = W\<rparr>,
     \<lparr>id = ''catalan-opening'', name = ''Catalan Opening'', description = ''1. d4 Nf6 2. c4 e6 3. g3 d5'',
      seedMoves = [''d2d4'', ''g8f6'', ''c2c4'', ''e7e6'', ''g2g3'', ''d7d5''], userColor = W\<rparr>,
     \<lparr>id = ''reti-opening'', name = ''Reti Opening'', description = ''1. Nf3 d5 2. c4'',
      seedMoves = [''g1f3'', ''d7d5'', ''c2c4''], userColor = W\<rparr>,
     \<lparr>id = ''vienna-game'', name = ''Vienna Game'', description = ''1. e4 e5 2. Nc3 Nf6'',
      seedMoves = [''e2e4'', ''e7e5'', ''b1c3'', ''g8f6''], userColor = W\<rparr>,
     \<lparr>id = ''kings-indian-attack'', name = ''King's Indian Attack'', description = ''1. Nf3 d5 2. g3 Nf6 3. Bg2 e6'',
      seedMoves = [''g1f3'', ''d7d5'', ''g2g3'', ''g8f6'', ''f1g2'', ''e7e6''], userColor = W\<rparr>,
     \<lparr>id = ''dutch-defense'', name = ''Dutch Defense'', description = ''1. d4 f5'',
      seedMoves = [''d2d4'', ''f7f5''], userColor = B\<rparr>,
     \<lparr>id = ''sicilian-defense'', name = ''Sicilian Defense'', description = ''1. e4 c5'',
      seedMoves = [''e2e4'', ''c7c5''], userColor = B\<rparr>,
     \<lparr>id = ''french-defense'', name = ''French Defense'', description = ''1. e4 e6'',
      seedMoves = [''e2e4'', ''e7e6''], userColor = B\<rparr>,
     \<lparr>id = ''caro-kann-defense'', name = ''Caro-Kann Defense'', description = ''1. e4 c6'',
      seedMoves = [''e2e4'', ''c7c6''], userColor = B\<rparr>,
     \<lparr>id = ''queens-gambit-declined'', name = ''Queen's Gambit Declined'', description = ''1. d4 d5 2. c4 e6'',
      seedMoves = [''d2d4'', ''d7d5'', ''c2c4'', ''e7e6''], userColor = B\<rparr>,
     \<lparr>id = ''kings-indian-defense'', name = ''King's Indian Defense'', description = ''1. d4 Nf6 2. c4 g6'',
      seedMoves = [''d2d4'', ''g8f6'', ''c2c4'', ''g7g6''], userColor = B\<rparr>,
     \<lparr>id = ''nimzo-indian-defense'', name = ''Nimzo-Indian Defense'', description = ''1. d4 Nf6 2. c4 e6 3. Nc3 Bb4'',
      seedMoves = [''d2d4'', ''g8f6'', ''c2c4'', ''e7e6'', ''b1c3'', ''f8b4''], userColor = B\<rparr>,
     \<lparr>id = ''slav-defense'', name = ''Slav Defense'', description = ''1. d4 d5 2. c4 c6'',
      seedMoves = [''d2d4'', ''d7d5'', ''c2c4'', ''c7c6''], userColor = B\<rparr>,
     \<lparr>id = ''scandinavian-defense'', name = ''Scandinavian Defense'', description = ''1. e4 d5'',
      seedMoves = [''e2e4'', ''d7d5''], userColor = B\<rparr>,
     \<lparr>id = ''petroff-defense'', name = ''Petroff Defense'', description = ''1. e4 e5 2. Nf3 Nf6'',
      seedMoves = [''e2e4'', ''e7e5'', ''g1f3'', ''g8f6''], userColor = B\<rparr>,
     \<lparr>id = ''alekhine-defense'', name = ''Alekhine Defense'', description = ''1. e4 Nf6'',
      seedMoves = [''e2e4'', ''g8f6''], userColor = B\<rparr>,
     \<lparr>id = ''pirc-defense'', name = ''Pirc Defense'', description = ''1. e4 d6 2. d4 Nf6 3. Nc3 g6'',
      seedMoves = [''e2e4'', ''d7d6'', ''d2d4'', ''g8f6'', ''b1c3'', ''g7g6''], userColor = B\<rparr>,
     \<lparr>id = ''grunfeld-defense'', name = ''Grunfeld Defense'', description = ''1. d4 Nf6 2. c4 g6 3. Nc3 d5'',
      seedMoves = [''d2d4'', ''g8f6'', ''c2c4'', ''g7g6'', ''b1c3'', ''d7d5''], userColor = B\<rparr>]"

definition HIGH_ELO_RATINGS :: "int list" where
  "HIGH_ELO_RATINGS = [2000, 2200, 2500]"

definition EXPLORER_RATING_BUCKETS :: "int list" where
  "EXPLORER_RATING_BUCKETS = [400, 1000, 1200, 1400, 1600, 1800, 2000, 2200, 2500]"

text \<open>
  \<open>buildRatingsFilterFromTargetElo\<close>; the comma-joined filter string is kept as the list of
  its buckets.
\<close>

definition buildRatingsFilterFromTargetElo :: "int \<Rightarrow> int list" where
  "buildRatingsFilterFromTargetElo targetElo =
     (let rangeMin = max 400 (targetElo - 200);
          rangeMax = min 3200 (targetElo + 200);
          inRange = filter (\<lambda>bucket. bucket \<ge> rangeMin \<and> bucket \<le> rangeMax) EXPLORER_RATING_BUCKETS
      in if length inRange > 0 then inRange
         else [foldl (\<lambda>closest candidate.
                        if \<bar>candidate - targetElo\<bar> < \<bar>closest - targetElo\<bar> then candidate
                        else closest)
                 (hd EXPLORER_RATING_BUCKETS) (tl EXPLORER_RATING_BUCKETS)])"

section \<open>Rule engine\<close>

text \<open>
  The rule engine is the external library chess.js. A game object is modelled by the plies
  played from the initial position, which fix the position, and by the number of trailing
  plies the object holds in its own history: a \<open>new Chess()\<close> that is then moved holds all
  of them, a \<open>new Chess(fen)\<close> starts with an empty history. Everything the library decides
  (whether a move is legal and how it is reported, whose turn it is, whether and how the
  game has ended) is a parameter of the model, so every theorem holds for any rule engine.
\<close>

record Chess =
  plies :: "Move list"
  remembered :: nat

record Rules =
  attempt :: "Chess \<Rightarrow> MoveInput \<Rightarrow> Move option"
  turn :: "Chess \<Rightarrow> PlayerColor"
  isGameOver :: "Chess \<Rightarrow> bool"
  isCheckmate :: "Chess \<Rightarrow> bool"
  isStalemate :: "Chess \<Rightarrow> bool"
  isThreefoldRepetition :: "Chess \<Rightarrow> bool"
  isInsufficientMaterial :: "Chess \<Rightarrow> bool"
  isDraw :: "Chess \<Rightarrow> bool"

definition newChess :: Chess where
  "newChess = \<lparr>plies = [], remembered = 0\<rparr>"

text \<open>\<open>new Chess(g.fen())\<close>: the same position, nothing to undo.\<close>

definition chessFromFen :: "Chess \<Rightarrow> Chess" where
  "chessFromFen g = \<lparr>plies = plies g, remembered = 0\<rparr>"

text \<open>
  \<open>g.move(input)\<close>: the move made and the game after it, or \<open>None\<close> for a rejected
  move. The source tests the result for \<open>null\<close>, and the model follows the source.
\<close>

definition chessMove :: "Rules \<Rightarrow> Chess \<Rightarrow> MoveInput \<Rightarrow> (Move \<times> Chess) option" where
  "chessMove rules g input =
     (case attempt rules g input of
        None \<Rightarrow> None
      | Some made \<Rightarrow> Some (made, \<lparr>plies = plies g @ [made], remembered = remembered g + 1\<rparr>))"

text \<open>\<open>g.undo()\<close>: the move taken back and the game before it, \<open>None\<close> on an empty history.\<close>

definition chessUndo :: "Chess \<Rightarrow> (Move \<times> Chess) option" where
  "chessUndo g =
     (if remembered g = 0 \<or> plies g = [] then None
      else Some (last (plies g), \<lparr>plies = butlast (plies g), remembered = remembered g - 1\<rparr>))"

text \<open>\<open>g.history({ verbose: true })\<close>.\<close>

definition chessHistory :: "Chess \<Rightarrow> Move list" where
  "chessHistory g = drop (length (plies g) - remembered g) (plies g)"

definition describeGameOver :: "Rules \<Rightarrow> Chess \<Rightarrow> string" where
  "describeGameOver rules g =
     (if isCheckmate rules g then ''Checkmate.''
      else if isStalemate rules g then ''Stalemate.''
      else if isThreefoldRepetition rules g then ''Draw by repetition.''
      else if isInsufficientMaterial rules g then ''Draw by insufficient material.''
      else if isDraw rules g then ''Draw.''
      else ''Game over.'')"

text \<open>\<open>getLastBotMoveSan\<close>: the notation of the latest remembered move of the given colour.\<close>

definition getLastBotMoveSan :: "Chess \<Rightarrow> PlayerColor \<Rightarrow> string" where
  "getLastBotMoveSan currentGame botColor =
     (case find (\<lambda>m. color m = botColor) (rev (chessHistory currentGame)) of
        Some m \<Rightarrow> Move.san m
      | None \<Rightarrow> [])"

section \<open>Session controller\<close>

text \<open>
  A status line is a template literal: text interleaved with formatted values. The
  formatting of a value (\<open>toLocaleString\<close>, \<open>toFixed(1)\<close>, \<open>formatPercentValue\<close>) is
  presentation and kept symbolic.
\<close>

datatype Chunk =
    Text string
  | Plain nat
  | Locale nat
  | Fixed1 real
  | PercentValue real
  | GradeMark MoveGrade

record Session =
  sessionIdRef :: nat
  game :: Chess
  moveHistoryUci :: "string list"
  sessionConfig :: "SessionConfig option"
  botThinking :: bool
  isSeeding :: bool
  status :: "Chunk list"
  lastBotMove :: string
  lastBotMoveRate :: "real option"
  lastMoveReview :: "MoveReview option"
  hintMove :: "RankedMove option"
  hintLoading :: bool
  brilliantToSquare :: "string option"
  brilliantHighlightTimeoutRef :: bool
  positionGames2000Plus :: "nat option"
  positionGamesLoading :: bool
  openingDropdownOpen :: bool
  moveCounter :: nat
  accuracyTracker :: AccuracyTracker

text \<open>
  An asynchronous function is cut at its \<open>await\<close>s. What is awaited, together with the
  variables the rest of the function has captured, is a value of \<open>Pending\<close>; the last
  component is always the captured session identifier. A fetch settles with the provider's
  response (\<open>Inr\<close>) or with an error (\<open>Inl\<close>, carrying the message of an \<open>Error\<close>).
\<close>

datatype FetchPending =
    PlayBotMoveFetch Chess "string list" SessionConfig nat
  | ScoreUserMoveFetch "string list" Chess "string list" Move SessionConfig nat
  | RequestHintFetch "string list" SessionConfig nat
  | PositionGamesFetch "string list" SessionConfig nat

datatype DelayPending =
    ScoreUserMoveDelay Chess "string list" SessionConfig nat
  | SeedDelay nat Chess "string list" SessionConfig nat
  | StartPracticeDelay Chess "string list" SessionConfig nat

datatype Pending = AwaitFetch FetchPending | AwaitDelay DelayPending

type_synonym Settled = "string option + ExplorerResponse"

definition errorMessage :: "string option \<Rightarrow> string" where
  "errorMessage err = (case err of Some message \<Rightarrow> message | None \<Rightarrow> ''Unknown error.'')"

definition initialSession :: Session where
  "initialSession =
     \<lparr>sessionIdRef = 0, game = newChess, moveHistoryUci = [], sessionConfig = None,
      botThinking = False, isSeeding = False, status = [], lastBotMove = [],
      lastBotMoveRate = None, lastMoveReview = None, hintMove = None, hintLoading = False,
      brilliantToSquare = None, brilliantHighlightTimeoutRef = False,
      positionGames2000Plus = None, positionGamesLoading = False,
      openingDropdownOpen = False, moveCounter = 0,
      accuracyTracker = initialAccuracyTracker\<rparr>"

definition clearBrilliantHighlight :: "Session \<Rightarrow> Session" where
  "clearBrilliantHighlight st =
     st\<lparr>brilliantHighlightTimeoutRef := False, brilliantToSquare := None\<rparr>"

text \<open>
  \<open>flashBrilliantSquare\<close> arms a timer that is cancelled with \<open>clearTimeout\<close>, not by the
  session identifier; \<open>brilliantFlashElapsed\<close> is its callback.
\<close>

definition flashBrilliantSquare :: "string \<Rightarrow> Session \<Rightarrow> Session" where
  "flashBrilliantSquare square st =
     st\<lparr>brilliantToSquare := Some square, brilliantHighlightTimeoutRef := True\<rparr>"

definition brilliantFlashElapsed :: "Session \<Rightarrow> Session" where
  "brilliantFlashElapsed st =
     (if brilliantHighlightTimeoutRef st
      then st\<lparr>brilliantToSquare := None, brilliantHighlightTimeoutRef := False\<rparr>
      else st)"

definition clearSessionState :: "Chunk list \<Rightarrow> Session \<Rightarrow> Session" where
  "clearSessionState nextStatus st =
     (clearBrilliantHighlight
        (st\<lparr>sessionIdRef := sessionIdRef st + 1,
            sessionConfig := None,
            game := newChess,
            moveHistoryUci := [],
            botThinking := False,
            isSeeding := False,
            lastBotMove := [],
            lastBotMoveRate := None,
            lastMoveReview := None,
            hintMove := None,
            hintLoading := False\<rparr>))
       \<lparr>positionGames2000Plus := None,
        positionGamesLoading := False,
        openingDropdownOpen := False,
        moveCounter := 0,
        accuracyTracker := \<lparr>sum = 0, count = 0, display = 100\<rparr>,
        status := nextStatus\<rparr>"

definition recordAccuracySample :: "nat \<Rightarrow> Session \<Rightarrow> Session" where
  "recordAccuracySample games2000 st =
     (let sample = accuracyFromGames (real games2000)
      in st\<lparr>accuracyTracker := recordSample sample (accuracyTracker st)\<rparr>)"

subsection \<open>The bot's move\<close>

definition playBotMove ::
    "Chess \<Rightarrow> string list \<Rightarrow> SessionConfig \<Rightarrow> nat \<Rightarrow> Session \<Rightarrow> Session \<times> Pending list" where
  "playBotMove currentGame currentHistory config sessionId st =
     (st\<lparr>botThinking := True, status := [Text ''Bot is choosing a move...'']\<rparr>,
      [AwaitFetch (PlayBotMoveFetch currentGame currentHistory config sessionId)])"

text \<open>The \<open>try\<close> block of \<open>playBotMove\<close> from the point where the fetch has succeeded.\<close>

definition playBotMoveTry ::
    "Rules \<Rightarrow> real \<Rightarrow> Chess \<Rightarrow> string list \<Rightarrow> SessionConfig \<Rightarrow> nat \<Rightarrow> ExplorerResponse
       \<Rightarrow> Session \<Rightarrow> Session" where
  "playBotMoveTry rules random currentGame currentHistory config sessionId explorer st =
     (if sessionId \<noteq> sessionIdRef st then st
      else
        (let st1 = recordAccuracySample (getExplorerTotalGames explorer) st;
             totalGamesAtPosition = getExplorerTotalGames explorer;
             choice = chooseWeightedMove random explorer (botMoveThresholdPercent config)
                        (alwaysPlayMostCommonMove config)
         in case selected choice of
              None \<Rightarrow>
                st1\<lparr>status := [Text ''No playable move returned for this position at current filters. Try a different opening or Elo.'']\<rparr>
            | Some chosen \<Rightarrow>
                (let selectedUci = normalizeCastlingUci (ExplorerMove.uci chosen)
                 in case chessMove rules (chessFromFen currentGame) (parseUci selectedUci) of
                      None \<Rightarrow>
                        st1\<lparr>status := [Text ''Explorer suggested illegal move '',
                                        Text (ExplorerMove.uci chosen),
                                        Text ''. Try another position.'']\<rparr>
                    | Some (appliedMove, nextGame) \<Rightarrow>
                        (let nextHistory = currentHistory @ [selectedUci];
                             st2 = st1\<lparr>game := nextGame,
                                       moveHistoryUci := nextHistory,
                                       lastBotMove := Move.san appliedMove,
                                       lastBotMoveRate := Some (selectedRate choice),
                                       hintMove := None\<rparr>;
                             botColor = colorLabel (opponentColor (userColor (openingPreset config)));
                             moveRateMessage =
                               [Text ''From '', Locale totalGamesAtPosition,
                                Text '' games in this position, '', Text botColor,
                                Text '' plays '', Text (Move.san appliedMove), Text '' '',
                                Fixed1 (selectedRate choice * 100),
                                Text ''% of the time at your elo.'']
                         in if isGameOver rules nextGame then
                              st2\<lparr>status := moveRateMessage
                                     @ [Text '' '', Text (describeGameOver rules nextGame)]\<rparr>
                            else if usedFallbackPool choice then
                              st2\<lparr>status := moveRateMessage
                                     @ [Text '' No move was above '',
                                        PercentValue (botMoveThresholdPercent config),
                                        Text ''%, so it used the full move list for this turn.'']\<rparr>
                            else st2\<lparr>status := moveRateMessage @ [Text '' Your move.'']\<rparr>))))"

definition playBotMoveCatch :: "nat \<Rightarrow> string option \<Rightarrow> Session \<Rightarrow> Session" where
  "playBotMoveCatch sessionId err st =
     (if sessionId \<noteq> sessionIdRef st then st
      else st\<lparr>status := [Text ''Explorer request failed: '', Text (errorMessage err)]\<rparr>)"

definition playBotMoveFinally :: "nat \<Rightarrow> Session \<Rightarrow> Session" where
  "playBotMoveFinally sessionId st =
     (if sessionId = sessionIdRef st then st\<lparr>botThinking := False\<rparr> else st)"

text \<open>
  \<open>playBotMove\<close> after its \<open>await fetchExplorerMoves(...)\<close> has settled; \<open>random\<close> is
  the value \<open>Math.random()\<close> returns inside \<open>chooseWeightedMove\<close>.
\<close>

definition playBotMoveSettled ::
    "Rules \<Rightarrow> real \<Rightarrow> Chess \<Rightarrow> string list \<Rightarrow> SessionConfig \<Rightarrow> nat \<Rightarrow> Settled
       \<Rightarrow> Session \<Rightarrow> Session \<times> Pending list" where
  "playBotMoveSettled rules random currentGame currentHistory config sessionId outcome st =
     (playBotMoveFinally sessionId
        (case outcome of
           Inr explorer \<Rightarrow>
             playBotMoveTry rules random currentGame currentHistory config sessionId explorer st
         | Inl err \<Rightarrow> playBotMoveCatch sessionId err st),
      [])"

subsection \<open>Scoring the user's move\<close>

definition scoreUserMove ::
    "string list \<Rightarrow> Chess \<Rightarrow> string list \<Rightarrow> Move \<Rightarrow> SessionConfig \<Rightarrow> nat \<Rightarrow> Session
       \<Rightarrow> Session \<times> Pending list" where
  "scoreUserMove beforeMoveHistory nextGame nextHistory userMove config sessionId st =
     (st\<lparr>status := [Text ''Scoring your move using 2000+ games...'']\<rparr>,
      [AwaitFetch
         (ScoreUserMoveFetch beforeMoveHistory nextGame nextHistory userMove config sessionId)])"

text \<open>
  The \<open>try\<close> and \<open>catch\<close> blocks of \<open>scoreUserMove\<close>; \<open>None\<close> is a \<open>return\<close> out of the
  whole function.
\<close>

definition scoreUserMoveTry ::
    "Move \<Rightarrow> SessionConfig \<Rightarrow> nat \<Rightarrow> ExplorerResponse \<Rightarrow> Session \<Rightarrow> Session option" where
  "scoreUserMoveTry userMove config sessionId explorer st =
     (if sessionId \<noteq> sessionIdRef st then None
      else
        (let st1 = recordAccuracySample (getExplorerTotalGames explorer) st;
             ranked = buildRankedMoves explorer;
             review = buildMoveReview ranked userMove (userColor (openingPreset config));
             st2 = st1\<lparr>lastMoveReview := Some review\<rparr>;
             st3 = (if grade review = Brilliant then flashBrilliantSquare (toSquare userMove) st2
                    else clearBrilliantHighlight st2);
             rankText = (case playedRank review of
                           None \<Rightarrow> [Text ''unranked'']
                         | Some r \<Rightarrow> if r = 0 then [Text ''unranked''] else [Text ''#'', Plain r])
         in Some (st3\<lparr>status := [Text ''You played '', Text (playedSan review), Text '': '',
                                  GradeMark (grade review), Text '' (rank '']
                                 @ rankText @ [Text '' in 2000+ games).'']\<rparr>)))"

definition scoreUserMoveCatch :: "nat \<Rightarrow> string option \<Rightarrow> Session \<Rightarrow> Session option" where
  "scoreUserMoveCatch sessionId err st =
     (if sessionId \<noteq> sessionIdRef st then None
      else Some (st\<lparr>status := [Text ''Could not score this move from 2000+ data: '',
                               Text (errorMessage err)]\<rparr>))"

definition scoreUserMoveSettled ::
    "Rules \<Rightarrow> string list \<Rightarrow> Chess \<Rightarrow> string list \<Rightarrow> Move \<Rightarrow> SessionConfig \<Rightarrow> nat
       \<Rightarrow> Settled \<Rightarrow> Session \<Rightarrow> Session \<times> Pending list" where
  "scoreUserMoveSettled rules beforeMoveHistory nextGame nextHistory userMove config sessionId
       outcome st =
     (case (case outcome of
              Inr explorer \<Rightarrow> scoreUserMoveTry userMove config sessionId explorer st
            | Inl err \<Rightarrow> scoreUserMoveCatch sessionId err st) of
        None \<Rightarrow> (st, [])
      | Some st1 \<Rightarrow>
          if sessionId \<noteq> sessionIdRef st1 then (st1, [])
          else if isGameOver rules nextGame then
            (st1\<lparr>status := [Text ''You played '', Text (Move.san userMove), Text ''. '',
                             Text (describeGameOver rules nextGame)]\<rparr>,
             [])
          else (st1, [AwaitDelay (ScoreUserMoveDelay nextGame nextHistory config sessionId)]))"

text \<open>\<open>scoreUserMove\<close> after its \<open>await delay(BOT_MOVE_DELAY_MS)\<close>.\<close>

definition scoreUserMoveDelayed ::
    "Chess \<Rightarrow> string list \<Rightarrow> SessionConfig \<Rightarrow> nat \<Rightarrow> Session \<Rightarrow> Session \<times> Pending list" where
  "scoreUserMoveDelayed nextGame nextHistory config sessionId st =
     (if sessionId \<noteq> sessionIdRef st then (st, [])
      else playBotMove nextGame nextHistory config sessionId st)"

subsection \<open>Hints\<close>

definition requestHint :: "Rules \<Rightarrow> Session \<Rightarrow> Session \<times> Pending list" where
  "requestHint rules st =
     (case sessionConfig st of
        None \<Rightarrow> (st\<lparr>status := [Text ''Start a session first to use hints.'']\<rparr>, [])
      | Some config \<Rightarrow>
          if isSeeding st then
            (st\<lparr>status := [Text ''Wait for opening setup to finish before requesting a hint.'']\<rparr>, [])
          else if isGameOver rules (game st) then
            (st\<lparr>status := [Text ''This game is over. Restart to use hints again.'']\<rparr>, [])
          else if turn rules (game st) \<noteq> userColor (openingPreset config) then
            (st\<lparr>status := [Text ''Hint is only available on your turn.'']\<rparr>, [])
          else
            (st\<lparr>hintLoading := True, status := [Text ''Loading hint from 2000+ games...'']\<rparr>,
             [AwaitFetch (RequestHintFetch (moveHistoryUci st) config (sessionIdRef st))]))"

definition requestHintTry :: "SessionConfig \<Rightarrow> nat \<Rightarrow> ExplorerResponse \<Rightarrow> Session \<Rightarrow> Session" where
  "requestHintTry config sessionId explorer st =
     (if sessionId \<noteq> sessionIdRef st then st
      else
        (case buildRankedMoves explorer of
           [] \<Rightarrow> st\<lparr>hintMove := None, status := [Text ''No hint available for this position.'']\<rparr>
         | best # _ \<Rightarrow>
             st\<lparr>hintMove := Some best,
                status := [Text ''Hint: most played move for '',
                           Text (colorLabel (userColor (openingPreset config))), Text '' is '',
                           Text (RankedMove.san best), Text '' ('',
                           Fixed1 (RankedMove.rate best * 100), Text ''%'',
                           Text '' in 2000+ games).'']\<rparr>))"

definition requestHintCatch :: "nat \<Rightarrow> string option \<Rightarrow> Session \<Rightarrow> Session" where
  "requestHintCatch sessionId err st =
     (if sessionId \<noteq> sessionIdRef st then st
      else st\<lparr>status := [Text ''Could not load hint: '', Text (errorMessage err)]\<rparr>)"

definition requestHintFinally :: "nat \<Rightarrow> Session \<Rightarrow> Session" where
  "requestHintFinally sessionId st =
     (if sessionId = sessionIdRef st then st\<lparr>hintLoading := False\<rparr> else st)"

definition requestHintSettled ::
    "SessionConfig \<Rightarrow> nat \<Rightarrow> Settled \<Rightarrow> Session \<Rightarrow> Session \<times> Pending list" where
  "requestHintSettled config sessionId outcome st =
     (requestHintFinally sessionId
        (case outcome of
           Inr explorer \<Rightarrow> requestHintTry config sessionId explorer st
         | Inl err \<Rightarrow> requestHintCatch sessionId err st),
      [])"

subsection \<open>The sample-size query of the current position\<close>

text \<open>
  The effect that runs when \<open>moveHistoryUci\<close> or \<open>sessionConfig\<close> has changed, and its
  three handlers \<open>then\<close>, \<open>catch\<close> and \<open>finally\<close>. \<open>cancelled\<close> is the flag the effect's
  clean-up sets.
\<close>

definition positionGamesEffect :: "Session \<Rightarrow> Session \<times> Pending list" where
  "positionGamesEffect st =
     (case sessionConfig st of
        None \<Rightarrow> (st\<lparr>positionGames2000Plus := None, positionGamesLoading := False\<rparr>, [])
      | Some config \<Rightarrow>
          (st\<lparr>positionGamesLoading := True\<rparr>,
           [AwaitFetch (PositionGamesFetch (moveHistoryUci st) config (sessionIdRef st))]))"

definition positionGamesSettled ::
    "bool \<Rightarrow> nat \<Rightarrow> Settled \<Rightarrow> Session \<Rightarrow> Session \<times> Pending list" where
  "positionGamesSettled cancelled sessionId outcome st =
     (let st1 = (case outcome of
                   Inr explorer \<Rightarrow>
                     if cancelled \<or> sessionId \<noteq> sessionIdRef st then st
                     else st\<lparr>positionGames2000Plus := Some (getExplorerTotalGames explorer)\<rparr>
                 | Inl err \<Rightarrow>
                     if cancelled \<or> sessionId \<noteq> sessionIdRef st then st
                     else st\<lparr>positionGames2000Plus := None\<rparr>)
      in (if cancelled \<or> sessionId \<noteq> sessionIdRef st1 then st1
          else st1\<lparr>positionGamesLoading := False\<rparr>,
          []))"

subsection \<open>Starting a session\<close>

definition selectedOpening :: "string \<Rightarrow> OpeningPreset" where
  "selectedOpening selectedOpeningId =
     (case find (\<lambda>preset. OpeningPreset.id preset = selectedOpeningId) OPENINGS of
        Some preset \<Rightarrow> preset
      | None \<Rightarrow> hd OPENINGS)"

definition startPracticeFinally :: "nat \<Rightarrow> Session \<Rightarrow> Session" where
  "startPracticeFinally sessionId st =
     (if sessionId = sessionIdRef st then st\<lparr>isSeeding := False\<rparr> else st)"

text \<open>\<open>startPractice\<close> below its seeding loop.\<close>

definition startPracticeAfterSeeding ::
    "Rules \<Rightarrow> Chess \<Rightarrow> string list \<Rightarrow> SessionConfig \<Rightarrow> nat \<Rightarrow> Session
       \<Rightarrow> Session \<times> Pending list" where
  "startPracticeAfterSeeding rules seededGame seededHistory config sessionId st =
     (if sessionId \<noteq> sessionIdRef st then (st, [])
      else if isGameOver rules seededGame then
        (st\<lparr>status := [Text ''Practice started. '', Text (describeGameOver rules seededGame)]\<rparr>, [])
      else if turn rules seededGame = userColor (openingPreset config) then
        (st\<lparr>status := [Text ''Practice started. Your move.'']\<rparr>, [])
      else
        (st\<lparr>status := [Text ''Practice started. Bot will move in 1.1 seconds...'']\<rparr>,
         [AwaitDelay (StartPracticeDelay seededGame seededHistory config sessionId)]))"

text \<open>
  The seeding loop of \<open>startPractice\<close>, entered at the test \<open>index < totalSeedMoves\<close>. It
  runs one iteration and then either waits for \<open>delay(500)\<close> or, after the last seed move,
  leaves the loop through the \<open>finally\<close> block.
\<close>

definition seedLoop ::
    "Rules \<Rightarrow> nat \<Rightarrow> Chess \<Rightarrow> string list \<Rightarrow> SessionConfig \<Rightarrow> nat \<Rightarrow> Session
       \<Rightarrow> Session \<times> Pending list" where
  "seedLoop rules index seededGame seededHistory config sessionId st =
     (let totalSeedMoves = length (seedMoves (openingPreset config))
      in if index < totalSeedMoves then
           (if sessionId \<noteq> sessionIdRef st then (startPracticeFinally sessionId st, [])
            else
              (let token = seedMoves (openingPreset config) ! index
               in case chessMove rules seededGame (parseUci token) of
                    None \<Rightarrow>
                      (startPracticeFinally sessionId
                         (st\<lparr>status := [Text ''Invalid seed move in opening preset: '',
                                         Text token]\<rparr>),
                       [])
                  | Some (made, seededGame') \<Rightarrow>
                      (let seededHistory' = seededHistory @ [token];
                           st1 = st\<lparr>game := chessFromFen seededGame',
                                     moveHistoryUci := seededHistory',
                                     status := [Text ''Setting up opening line... '',
                                                Plain (index + 1), Text ''/'',
                                                Plain totalSeedMoves, Text '' ('',
                                                Text (Move.san made), Text '')'']\<rparr>
                       in if index < totalSeedMoves - 1 then
                            (st1,
                             [AwaitDelay
                                (SeedDelay (index + 1) seededGame' seededHistory' config sessionId)])
                          else
                            startPracticeAfterSeeding rules seededGame' seededHistory' config
                              sessionId (startPracticeFinally sessionId st1))))
         else
           startPracticeAfterSeeding rules seededGame seededHistory config sessionId
             (startPracticeFinally sessionId st))"

text \<open>
  \<open>startPractice\<close>. Its inputs are the values the component derives from the settings
  form: the selected opening's id, the clamped Elo and threshold, and the policy flag.
\<close>

definition startPractice ::
    "Rules \<Rightarrow> string \<Rightarrow> int \<Rightarrow> real \<Rightarrow> bool \<Rightarrow> Session \<Rightarrow> Session \<times> Pending list" where
  "startPractice rules selectedOpeningId safeElo safeBotMoveThresholdPercent alwaysMostCommon st =
     (let config = \<lparr>openingPreset = selectedOpening selectedOpeningId,
                    elo = safeElo,
                    eloRatings = buildRatingsFilterFromTargetElo safeElo,
                    speed = Rapid,
                    botMoveThresholdPercent = safeBotMoveThresholdPercent,
                    alwaysPlayMostCommonMove = alwaysMostCommon\<rparr>;
          sessionId = sessionIdRef st + 1;
          st1 = (clearBrilliantHighlight
                   (st\<lparr>sessionIdRef := sessionId,
                       sessionConfig := Some config,
                       game := newChess,
                       moveHistoryUci := [],
                       botThinking := False,
                       isSeeding := True,
                       lastBotMove := [],
                       lastBotMoveRate := None,
                       lastMoveReview := None,
                       hintMove := None,
                       hintLoading := False\<rparr>))
                  \<lparr>positionGames2000Plus := None,
                   positionGamesLoading := False,
                   openingDropdownOpen := False,
                   moveCounter := 0,
                   accuracyTracker := \<lparr>sum = 0, count = 0, display = 100\<rparr>,
                   status := [Text ''Setting up opening line...'']\<rparr>
      in seedLoop rules 0 newChess [] config sessionId st1)"

text \<open>\<open>startPractice\<close> after its \<open>await delay(BOT_MOVE_DELAY_MS)\<close>.\<close>

definition startPracticeDelayed ::
    "Chess \<Rightarrow> string list \<Rightarrow> SessionConfig \<Rightarrow> nat \<Rightarrow> Session \<Rightarrow> Session \<times> Pending list" where
  "startPracticeDelayed seededGame seededHistory config sessionId st =
     (if sessionId \<noteq> sessionIdRef st then (st, [])
      else playBotMove seededGame seededHistory config sessionId st)"

definition resetSession :: "Session \<Rightarrow> Session" where
  "resetSession st =
     (let hadSession = (sessionConfig st \<noteq> None \<or> length (moveHistoryUci st) > 0)
      in clearSessionState (if hadSession then [Text ''Session ended.''] else []) st)"

subsection \<open>Undo\<close>

text \<open>The replay loop of \<open>undoLastAttempt\<close>; \<open>None\<close> when a move is rejected.\<close>

fun replayHistory :: "Rules \<Rightarrow> Chess \<Rightarrow> string list \<Rightarrow> Chess option" where
  "replayHistory rules g [] = Some g"
| "replayHistory rules g (token # rest) =
     (case chessMove rules g (parseUci token) of
        None \<Rightarrow> None
      | Some (reconstructed, g') \<Rightarrow> replayHistory rules g' rest)"

text \<open>
  The \<open>while\<close> loop of \<open>undoLastAttempt\<close> over
  \<open>(nextGame, nextHistory, undoneCount, undoneUserMoves)\<close>; \<open>nextHistory.pop()\<close> is
  \<open>butlast\<close>. The history gets shorter with every iteration.
\<close>

function undoLoop ::
    "Rules \<Rightarrow> PlayerColor \<Rightarrow> nat \<Rightarrow> Chess \<times> string list \<times> nat \<times> nat
       \<Rightarrow> Chess \<times> string list \<times> nat \<times> nat" where
  "undoLoop rules user seedLength (nextGame, nextHistory, undoneCount, undoneUserMoves) =
     (if length nextHistory > seedLength then
        (case chessUndo nextGame of
           None \<Rightarrow> (nextGame, nextHistory, undoneCount, undoneUserMoves)
         | Some (undoneMove, nextGame') \<Rightarrow>
             (let nextHistory' = butlast nextHistory;
                  undoneCount' = undoneCount + 1;
                  undoneUserMoves' =
                    (if color undoneMove = user then undoneUserMoves + 1 else undoneUserMoves)
              in if turn rules nextGame' = user
                 then (nextGame', nextHistory', undoneCount', undoneUserMoves')
                 else undoLoop rules user seedLength
                        (nextGame', nextHistory', undoneCount', undoneUserMoves')))
      else (nextGame, nextHistory, undoneCount, undoneUserMoves))"
  by pat_completeness auto
termination
  by (relation "measure (\<lambda>(rules, user, seedLength, nextGame, nextHistory, rest). length nextHistory)")
    auto

text \<open>
  \<open>undoLastAttempt\<close>. The subtraction on naturals stops at 0, as
  \<open>Math.max(0, previous - undoneUserMoves)\<close> does.
\<close>

definition undoLastAttempt :: "Rules \<Rightarrow> Session \<Rightarrow> Session" where
  "undoLastAttempt rules st =
     (case sessionConfig st of
        None \<Rightarrow> st
      | Some config \<Rightarrow>
          (let seedLength = length (seedMoves (openingPreset config))
           in if length (moveHistoryUci st) \<le> seedLength then
                st\<lparr>status := [Text ''Nothing to undo yet.'']\<rparr>
              else
                (let st1 = st\<lparr>sessionIdRef := sessionIdRef st + 1\<rparr>
                 in case replayHistory rules newChess (moveHistoryUci st) of
                      None \<Rightarrow>
                        st1\<lparr>status := [Text ''Could not reconstruct game history for undo.'']\<rparr>
                    | Some replayed \<Rightarrow>
                        (case undoLoop rules (userColor (openingPreset config)) seedLength
                                (replayed, moveHistoryUci st, 0, 0) of
                           (nextGame, nextHistory, undoneCount, undoneUserMoves) \<Rightarrow>
                             if undoneCount = 0 then
                               st1\<lparr>status := [Text ''Could not undo the last move.'']\<rparr>
                             else
                               (clearBrilliantHighlight
                                  (st1\<lparr>game := nextGame,
                                       moveHistoryUci := nextHistory,
                                       botThinking := False,
                                       isSeeding := False,
                                       hintLoading := False,
                                       hintMove := None\<rparr>))
                                 \<lparr>lastBotMoveRate := None,
                                  moveCounter := moveCounter st1 - undoneUserMoves,
                                  lastMoveReview := None,
                                  lastBotMove :=
                                    getLastBotMoveSan nextGame
                                      (opponentColor (userColor (openingPreset config))),
                                  status := [Text ''Undid the last move. Try again.'']\<rparr>))))"

subsection \<open>The user's move\<close>

definition endsWith :: "string \<Rightarrow> char \<Rightarrow> bool" where
  "endsWith s c = (s \<noteq> [] \<and> last s = c)"

text \<open>
  \<open>onPieceDrop\<close>: whether the drop is accepted, the session after it and what it
  launches. \<open>pieceType\<close>, \<open>sourceSquare\<close> and \<open>targetSquare\<close> come from the board.
\<close>

definition onPieceDrop ::
    "Rules \<Rightarrow> string \<Rightarrow> string \<Rightarrow> string option \<Rightarrow> Session \<Rightarrow> bool \<times> Session \<times> Pending list" where
  "onPieceDrop rules pieceType sourceSquare targetSquare st =
     (case sessionConfig st of
        None \<Rightarrow> (False, st, [])
      | Some config \<Rightarrow>
          (case targetSquare of
             None \<Rightarrow> (False, st, [])
           | Some target \<Rightarrow>
               if isSeeding st \<or> botThinking st \<or> isGameOver rules (game st)
                  \<or> turn rules (game st) \<noteq> userColor (openingPreset config)
               then (False, st, [])
               else
                 (let isPromotion =
                        (endsWith (toLowerCase pieceType) CHR ''p''
                         \<and> (endsWith (toLowerCase target) CHR ''1''
                              \<or> endsWith (toLowerCase target) CHR ''8''))
                  in case chessMove rules (chessFromFen (game st))
                            (sourceSquare, target, if isPromotion then Some ''q'' else None) of
                       None \<Rightarrow> (False, st, [])
                     | Some (made, nextGame) \<Rightarrow>
                         (let nextHistory = moveHistoryUci st @ [toUci made];
                              beforeMoveHistory = moveHistoryUci st;
                              st1 = (clearBrilliantHighlight
                                       (st\<lparr>game := nextGame,
                                           moveHistoryUci := nextHistory,
                                           hintMove := None\<rparr>))
                                      \<lparr>moveCounter := moveCounter st + 1\<rparr>
                          in case scoreUserMove beforeMoveHistory nextGame nextHistory made config
                                    (sessionIdRef st) st1 of
                               (st2, launched) \<Rightarrow> (True, st2, launched)))))"

subsection \<open>Resuming what was awaited\<close>

definition fetchSessionId :: "FetchPending \<Rightarrow> nat" where
  "fetchSessionId p =
     (case p of
        PlayBotMoveFetch _ _ _ sessionId \<Rightarrow> sessionId
      | ScoreUserMoveFetch _ _ _ _ _ sessionId \<Rightarrow> sessionId
      | RequestHintFetch _ _ sessionId \<Rightarrow> sessionId
      | PositionGamesFetch _ _ sessionId \<Rightarrow> sessionId)"

definition delaySessionId :: "DelayPending \<Rightarrow> nat" where
  "delaySessionId p =
     (case p of
        ScoreUserMoveDelay _ _ _ sessionId \<Rightarrow> sessionId
      | SeedDelay _ _ _ _ sessionId \<Rightarrow> sessionId
      | StartPracticeDelay _ _ _ sessionId \<Rightarrow> sessionId)"

text \<open>The continuation that runs when a fetch settles.\<close>

definition resumeFetch ::
    "Rules \<Rightarrow> real \<Rightarrow> bool \<Rightarrow> FetchPending \<Rightarrow> Settled \<Rightarrow> Session \<Rightarrow> Session \<times> Pending list" where
  "resumeFetch rules random cancelled p outcome st =
     (case p of
        PlayBotMoveFetch currentGame currentHistory config sessionId \<Rightarrow>
          playBotMoveSettled rules random currentGame currentHistory config sessionId outcome st
      | ScoreUserMoveFetch beforeMoveHistory nextGame nextHistory userMove config sessionId \<Rightarrow>
          scoreUserMoveSettled rules beforeMoveHistory nextGame nextHistory userMove config
            sessionId outcome st
      | RequestHintFetch history config sessionId \<Rightarrow>
          requestHintSettled config sessionId outcome st
      | PositionGamesFetch history config sessionId \<Rightarrow>
          positionGamesSettled cancelled sessionId outcome st)"

text \<open>The continuation that runs when a delay has elapsed.\<close>

definition resumeDelay :: "Rules \<Rightarrow> DelayPending \<Rightarrow> Session \<Rightarrow> Session \<times> Pending list" where
  "resumeDelay rules p st =
     (case p of
        ScoreUserMoveDelay nextGame nextHistory config sessionId \<Rightarrow>
          scoreUserMoveDelayed nextGame nextHistory config sessionId st
      | SeedDelay index seededGame seededHistory config sessionId \<Rightarrow>
          seedLoop rules index seededGame seededHistory config sessionId st
      | StartPracticeDelay seededGame seededHistory config sessionId \<Rightarrow>
          startPracticeDelayed seededGame seededHistory config sessionId st)"

section \<open>Vocabulary of the statements\<close>

text \<open>
  The quantities the properties below are stated in: a candidate's game count, the
  snapshot's aggregate total, the denominator and the rate as the specification describes
  them, and the candidates that have games at all, in snapshot order.
\<close>

definition candidateGames :: "ExplorerMove \<Rightarrow> nat" where
  "candidateGames m = ExplorerMove.white m + ExplorerMove.draws m + ExplorerMove.black m"

definition aggregateTotal :: "ExplorerResponse \<Rightarrow> nat" where
  "aggregateTotal explorer =
     ExplorerResponse.white explorer + ExplorerResponse.draws explorer
       + ExplorerResponse.black explorer"

definition rateDenominator :: "ExplorerResponse \<Rightarrow> nat" where
  "rateDenominator explorer =
     (if aggregateTotal explorer > 0 then aggregateTotal explorer
      else sum_list (map candidateGames (moves explorer)))"

definition candidateRate :: "ExplorerResponse \<Rightarrow> ExplorerMove \<Rightarrow> real" where
  "candidateRate explorer m =
     (if rateDenominator explorer > 0
      then real (candidateGames m) / real (rateDenominator explorer)
      else 0)"

definition nonzeroCandidates :: "ExplorerResponse \<Rightarrow> ExplorerMove list" where
  "nonzeroCandidates explorer = filter (\<lambda>m. candidateGames m \<noteq> 0) (moves explorer)"

text \<open>What a ranked move shows of its candidate: token, notation and game count.\<close>

definition rankedFace :: "RankedMove \<Rightarrow> string \<times> string \<times> nat" where
  "rankedFace r = (RankedMove.uci r, RankedMove.san r, RankedMove.games r)"

definition candidateFace :: "ExplorerMove \<Rightarrow> string \<times> string \<times> nat" where
  "candidateFace m = (normalizeCastlingUci (ExplorerMove.uci m), ExplorerMove.san m, candidateGames m)"

definition topRate :: "RankedMove list \<Rightarrow> real" where
  "topRate ranked = (case ranked of [] \<Rightarrow> 0 | leader # _ \<Rightarrow> RankedMove.rate leader)"

text \<open>A token is castling-normalized when normalization leaves it as it is.\<close>

definition castlingNormalized :: "string \<Rightarrow> bool" where
  "castlingNormalized token = (normalizeCastlingUci token = token)"

text \<open>
  A rounding function is within \<open>u\<close> when its relative error on nonnegative numbers is at
  most \<open>u\<close>. The rate of a candidate as the program holds it is the rounded quotient.
\<close>

definition roundsWithin :: "real \<Rightarrow> (real \<Rightarrow> real) \<Rightarrow> bool" where
  "roundsWithin u fl = (\<forall>x. 0 \<le> x \<longrightarrow> \<bar>fl x - x\<bar> \<le> u * x)"

definition roundedRate :: "(real \<Rightarrow> real) \<Rightarrow> ExplorerResponse \<Rightarrow> ExplorerMove \<Rightarrow> real" where
  "roundedRate fl explorer m =
     (if rateDenominator explorer > 0
      then fl (real (candidateGames m) / real (rateDenominator explorer))
      else 0)"

text \<open>
  The candidates with games whose rate is above the threshold, in snapshot order; the
  threshold is a percentage, negative ones count as 0.
\<close>

definition aboveThreshold :: "(real \<Rightarrow> real) \<Rightarrow> ExplorerResponse \<Rightarrow> real \<Rightarrow> ExplorerMove list" where
  "aboveThreshold fl explorer percent =
     filter (\<lambda>m. roundedRate fl explorer m > fl (max 0 percent / 100))
       (nonzeroCandidates explorer)"

text \<open>
  A roulette draw over a pool of candidates. The draw starts from the random number times
  the pool's total game count and takes off the candidates' game counts in pool order;
  \<open>thresholdAfter\<close> is what is left after the given counts. \<open>drawnFrom\<close> says that a
  choice is the first candidate of the pool at which nothing is left, or the last candidate
  of the pool when something is left after all of them, and that the reported rate is that
  candidate's.
\<close>

fun thresholdAfter :: "(real \<Rightarrow> real) \<Rightarrow> real \<Rightarrow> nat list \<Rightarrow> real" where
  "thresholdAfter fl t [] = t"
| "thresholdAfter fl t (g # gs) = thresholdAfter fl (fl (t - real g)) gs"

definition drawnFrom ::
    "(real \<Rightarrow> real) \<Rightarrow> real \<Rightarrow> ExplorerResponse \<Rightarrow> ExplorerMove list \<Rightarrow> Choice \<Rightarrow> bool" where
  "drawnFrom fl random explorer pool choice =
     (\<exists>i < length pool.
         selected choice = Some (pool ! i)
         \<and> selectedRate choice = roundedRate fl explorer (pool ! i)
         \<and> (\<forall>j < i.
               0 < thresholdAfter fl (fl (random * real (sum_list (map candidateGames pool))))
                     (map candidateGames (take (Suc j) pool)))
         \<and> (thresholdAfter fl (fl (random * real (sum_list (map candidateGames pool))))
                (map candidateGames (take (Suc i) pool)) \<le> 0
              \<or> i = length pool - 1))"

section \<open>Local constants of the statistics functions\<close>

text \<open>
  The local constant \<open>baseMoves\<close> of \<open>buildRankedMoves\<close> and the list \<open>weightedMoves\<close>
  of \<open>chooseWeightedMove\<close> once its rates have been assigned, named so that lemmas can
  speak about them.
\<close>

definition baseMovesOf :: "ExplorerResponse \<Rightarrow> BaseMove list" where
  "baseMovesOf explorer =
     sort_key (\<lambda>entry. - int (BaseMove.games entry))
       (filter (\<lambda>entry. BaseMove.games entry > 0)
         (map (\<lambda>m. \<lparr>BaseMove.move = m,
                      BaseMove.games =
                        ExplorerMove.white m + ExplorerMove.draws m + ExplorerMove.black m\<rparr>)
           (moves explorer)))"

definition weightedMovesOf :: "ExplorerResponse \<Rightarrow> WeightedMove list" where
  "weightedMovesOf explorer =
     (let totalAtPosition =
            ExplorerResponse.white explorer + ExplorerResponse.draws explorer
              + ExplorerResponse.black explorer;
          unrated =
            filter (\<lambda>entry. WeightedMove.games entry > 0)
              (map (\<lambda>m. \<lparr>WeightedMove.move = m,
                           WeightedMove.games =
                             ExplorerMove.white m + ExplorerMove.draws m + ExplorerMove.black m,
                           WeightedMove.rate = 0\<rparr>)
                (moves explorer));
          denominator =
            (if totalAtPosition > 0 then totalAtPosition
             else foldl (\<lambda>sum entry. sum + WeightedMove.games entry) 0 unrated)
      in map (\<lambda>entry. entry\<lparr>WeightedMove.rate :=
                                  (if denominator > 0
                                   then real (WeightedMove.games entry) / real denominator
                                   else 0)\<rparr>)
              unrated)"

definition weigh :: "ExplorerResponse \<Rightarrow> ExplorerMove \<Rightarrow> WeightedMove" where
  "weigh explorer m =
     \<lparr>WeightedMove.move = m, WeightedMove.games = candidateGames m,
      WeightedMove.rate = candidateRate explorer m\<rparr>"

definition weightedMovesOfRounded :: "(real \<Rightarrow> real) \<Rightarrow> ExplorerResponse \<Rightarrow> WeightedMove list" where
  "weightedMovesOfRounded fl explorer =
     (let totalAtPosition =
            ExplorerResponse.white explorer + ExplorerResponse.draws explorer
              + ExplorerResponse.black explorer;
          unrated =
            filter (\<lambda>entry. WeightedMove.games entry > 0)
              (map (\<lambda>m. \<lparr>WeightedMove.move = m,
                           WeightedMove.games =
                             ExplorerMove.white m + ExplorerMove.draws m + ExplorerMove.black m,
                           WeightedMove.rate = 0\<rparr>)
                (moves explorer));
          denominator =
            (if totalAtPosition > 0 then totalAtPosition
             else foldl (\<lambda>sum entry. sum + WeightedMove.games entry) 0 unrated)
      in map (\<lambda>entry. entry\<lparr>WeightedMove.rate :=
                                  (if denominator > 0
                                   then fl (real (WeightedMove.games entry) / real denominator)
                                   else 0)\<rparr>)
              unrated)"

definition weighRounded :: "(real \<Rightarrow> real) \<Rightarrow> ExplorerResponse \<Rightarrow> ExplorerMove \<Rightarrow> WeightedMove" where
  "weighRounded fl explorer m =
     \<lparr>WeightedMove.move = m, WeightedMove.games = candidateGames m,
      WeightedMove.rate = roundedRate fl explorer m\<rparr>"

definition baseFace :: "BaseMove \<Rightarrow> string \<times> string \<times> nat" where
  "baseFace entry =
     (normalizeCastlingUci (ExplorerMove.uci (BaseMove.move entry)),
      ExplorerMove.san (BaseMove.move entry), BaseMove.games entry)"

section \<open>Example inputs\<close>

definition candidate :: "string \<Rightarrow> string \<Rightarrow> nat \<Rightarrow> nat \<Rightarrow> nat \<Rightarrow> ExplorerMove" where
  "candidate token notation w d b =
     \<lparr>ExplorerMove.uci = token, ExplorerMove.san = notation, ExplorerMove.white = w,
      ExplorerMove.draws = d, ExplorerMove.black = b\<rparr>"

definition snapshot :: "nat \<Rightarrow> nat \<Rightarrow> nat \<Rightarrow> ExplorerMove list \<Rightarrow> ExplorerResponse" where
  "snapshot w d b candidates =
     \<lparr>ExplorerResponse.white = w, ExplorerResponse.draws = d, ExplorerResponse.black = b,
      moves = candidates\<rparr>"

text \<open>Rates 5% and 95%: 5 and 95 of 100 games.\<close>

definition snapshot_5_95 :: ExplorerResponse where
  "snapshot_5_95 =
     snapshot 42 16 42 [candidate ''a2a3'' ''a3'' 2 1 2, candidate ''e2e4'' ''e4'' 40 15 40]"

text \<open>Rates 50% and 50%.\<close>

definition snapshot_50_50 :: ExplorerResponse where
  "snapshot_50_50 =
     snapshot 40 20 40 [candidate ''d2d4'' ''d4'' 20 10 20, candidate ''e2e4'' ''e4'' 20 10 20]"

text \<open>Rates 5% and 5%: no candidate is above a threshold of 10%.\<close>

definition snapshot_5_5 :: ExplorerResponse where
  "snapshot_5_5 =
     snapshot 40 20 40 [candidate ''a2a3'' ''a3'' 2 1 2, candidate ''h2h3'' ''h3'' 2 1 2]"

text \<open>Game counts 40, 90 and 10; the provider has omitted the aggregate totals.\<close>

definition snapshot_40_90_10 :: ExplorerResponse where
  "snapshot_40_90_10 =
     snapshot 0 0 0
       [candidate ''d2d4'' ''d4'' 20 0 20, candidate ''e2e4'' ''e4'' 40 10 40,
        candidate ''c2c4'' ''c4'' 5 0 5]"

text \<open>An aggregate total of 1 game beside a candidate with 1000 games.\<close>

definition snapshot_inconsistent :: ExplorerResponse where
  "snapshot_inconsistent = snapshot 1 0 0 [candidate ''e2e4'' ''e4'' 500 0 500]"

text \<open>A tie (30, 30) after a smaller count, and a candidate without games.\<close>

definition snapshot_tie :: ExplorerResponse where
  "snapshot_tie =
     snapshot 40 20 40
       [candidate ''c2c4'' ''c4'' 5 0 5, candidate ''E1H1'' ''O-O'' 10 10 10,
        candidate ''b2b3'' ''b3'' 0 0 0, candidate ''e2e4'' ''e4'' 15 0 15]"

text \<open>
  A consistent snapshot, 18, 9 and 1 of 28 games, whose rates in double arithmetic sum to
  more than 1; and a single candidate with 7 of 125 games.
\<close>

definition snapshot_18_9_1 :: ExplorerResponse where
  "snapshot_18_9_1 =
     snapshot 12 4 12
       [candidate ''e2e4'' ''e4'' 8 2 8, candidate ''d2d4'' ''d4'' 4 1 4,
        candidate ''c2c4'' ''c4'' 1 0 0]"

definition snapshot_7_of_125 :: ExplorerResponse where
  "snapshot_7_of_125 = snapshot 50 25 50 [candidate ''e2e4'' ''e4'' 3 1 3]"


definition played :: "string \<Rightarrow> string \<Rightarrow> string \<Rightarrow> Move" where
  "played source target notation =
     \<lparr>color = W, fromSquare = source, toSquare = target, promotion = None,
      Move.san = notation\<rparr>"

definition permissiveRules :: Rules where
  "permissiveRules =
     \<lparr>attempt = (\<lambda>g (source, target, promo).
                   Some \<lparr>color = (if even (length (plies g)) then W else B),
                         fromSquare = source, toSquare = target, promotion = promo,
                         Move.san = source @ target\<rparr>),
      turn = (\<lambda>g. if even (length (plies g)) then W else B),
      isGameOver = (\<lambda>g. False),
      isCheckmate = (\<lambda>g. False),
      isStalemate = (\<lambda>g. False),
      isThreefoldRepetition = (\<lambda>g. False),
      isInsufficientMaterial = (\<lambda>g. False),
      isDraw = (\<lambda>g. False)\<rparr>"

text \<open>
  \<open>permissiveRules\<close> is a stand-in rule engine for running the controller on concrete
  inputs: it accepts every move, lets the colours alternate from White, and never ends the
  game. \<open>englishConfig\<close> is the configuration \<open>startPractice\<close> builds for the English
  Opening (four seed moves, the user plays White), and \<open>sessionWithLog\<close> a session of that
  configuration whose move log is the given one.
\<close>

definition englishConfig :: SessionConfig where
  "englishConfig =
     \<lparr>openingPreset = selectedOpening ''english-opening'',
      elo = 1500,
      eloRatings = buildRatingsFilterFromTargetElo 1500,
      speed = Rapid,
      botMoveThresholdPercent = 10,
      alwaysPlayMostCommonMove = False\<rparr>"

definition sessionWithLog :: "string list \<Rightarrow> Session" where
  "sessionWithLog history =
     (case replayHistory permissiveRules newChess history of
        Some g \<Rightarrow>
          initialSession\<lparr>sessionIdRef := 1, sessionConfig := Some englishConfig,
                          game := chessFromFen g, moveHistoryUci := history\<rparr>
      | None \<Rightarrow> initialSession)"


text \<open>
  \<open>pieceTrackingRules\<close> is a stand-in rule engine that knows where the pieces are. It
  follows the occupied squares through the plies played (a move empties its source square
  and occupies its target square, which is all that happens in a line without castling, en
  passant and promotion) and accepts a move exactly when a piece stands on its source
  square. Every chess engine rejects a move from an empty square.
\<close>

definition initialSquares :: "string list" where
  "initialSquares =
     [''a1'', ''b1'', ''c1'', ''d1'', ''e1'', ''f1'', ''g1'', ''h1'',
      ''a2'', ''b2'', ''c2'', ''d2'', ''e2'', ''f2'', ''g2'', ''h2'',
      ''a7'', ''b7'', ''c7'', ''d7'', ''e7'', ''f7'', ''g7'', ''h7'',
      ''a8'', ''b8'', ''c8'', ''d8'', ''e8'', ''f8'', ''g8'', ''h8'']"

definition occupiedSquares :: "Move list \<Rightarrow> string list" where
  "occupiedSquares line =
     foldl (\<lambda>squares m. toSquare m # filter (\<lambda>square. square \<noteq> fromSquare m) squares)
       initialSquares line"

definition pieceTrackingRules :: Rules where
  "pieceTrackingRules =
     \<lparr>attempt = (\<lambda>g (source, target, promo).
                   if source \<in> set (occupiedSquares (plies g))
                   then Some \<lparr>color = (if even (length (plies g)) then W else B),
                              fromSquare = source, toSquare = target, promotion = promo,
                              Move.san = source @ target\<rparr>
                   else None),
      turn = (\<lambda>g. if even (length (plies g)) then W else B),
      isGameOver = (\<lambda>g. False),
      isCheckmate = (\<lambda>g. False),
      isStalemate = (\<lambda>g. False),
      isThreefoldRepetition = (\<lambda>g. False),
      isInsufficientMaterial = (\<lambda>g. False),
      isDraw = (\<lambda>g. False)\<rparr>"









section \<open>The controller as a transition system\<close>

text \<open>
  A state of the running program is the session together with what is awaited. The user
  can start, drop a piece, ask for a hint, undo and reset at any time (the buttons that the
  component disables are not taken into account, so more is reachable here than in the
  program); an awaited fetch can settle with any outcome and an awaited delay can elapse,
  in any order.
\<close>

inductive reachable :: "Rules \<Rightarrow> Session \<times> Pending list \<Rightarrow> bool" for rules :: Rules where
  initial: "reachable rules (initialSession, [])"
| started:
    "reachable rules (st, ps) \<Longrightarrow>
     startPractice rules selectedOpeningId safeElo safePercent flag st = (st', launched) \<Longrightarrow>
     reachable rules (st', ps @ launched)"
| dropped:
    "reachable rules (st, ps) \<Longrightarrow>
     onPieceDrop rules pieceType sourceSquare targetSquare st = (accepted, st', launched) \<Longrightarrow>
     reachable rules (st', ps @ launched)"
| hinted:
    "reachable rules (st, ps) \<Longrightarrow>
     requestHint rules st = (st', launched) \<Longrightarrow>
     reachable rules (st', ps @ launched)"
| undone:
    "reachable rules (st, ps) \<Longrightarrow> reachable rules (undoLastAttempt rules st, ps)"
| reset:
    "reachable rules (st, ps) \<Longrightarrow> reachable rules (resetSession st, ps)"
| effect:
    "reachable rules (st, ps) \<Longrightarrow>
     positionGamesEffect st = (st', launched) \<Longrightarrow>
     reachable rules (st', ps @ launched)"
| flashed:
    "reachable rules (st, ps) \<Longrightarrow> reachable rules (brilliantFlashElapsed st, ps)"
| settled:
    "reachable rules (st, ps) \<Longrightarrow>
     AwaitFetch p \<in> set ps \<Longrightarrow>
     resumeFetch rules random cancelled p outcome st = (st', launched) \<Longrightarrow>
     reachable rules (st', remove1 (AwaitFetch p) ps @ launched)"
| elapsed:
    "reachable rules (st, ps) \<Longrightarrow>
     AwaitDelay p \<in> set ps \<Longrightarrow>
     resumeDelay rules p st = (st', launched) \<Longrightarrow>
     reachable rules (st', remove1 (AwaitDelay p) ps @ launched)"

definition normalizedLog :: "string list \<Rightarrow> bool" where
  "normalizedLog history = (\<forall>token \<in> set history. castlingNormalized token)"

text \<open>
  What the invariant of the move log needs of an awaited continuation: the move history it
  has captured is normalized, and a seeding loop's preset is one of the catalog.
\<close>

definition pendingOk :: "Pending \<Rightarrow> bool" where
  "pendingOk p =
     (case p of
        AwaitFetch (PlayBotMoveFetch currentGame currentHistory config sessionId) \<Rightarrow>
          normalizedLog currentHistory
      | AwaitFetch (ScoreUserMoveFetch beforeMoveHistory nextGame nextHistory userMove config
            sessionId) \<Rightarrow>
          normalizedLog nextHistory
      | AwaitFetch (RequestHintFetch history config sessionId) \<Rightarrow> True
      | AwaitFetch (PositionGamesFetch history config sessionId) \<Rightarrow> True
      | AwaitDelay (ScoreUserMoveDelay nextGame nextHistory config sessionId) \<Rightarrow>
          normalizedLog nextHistory
      | AwaitDelay (SeedDelay index seededGame seededHistory config sessionId) \<Rightarrow>
          normalizedLog seededHistory \<and> openingPreset config \<in> set OPENINGS
      | AwaitDelay (StartPracticeDelay seededGame seededHistory config sessionId) \<Rightarrow>
          normalizedLog seededHistory)"

text \<open>
  A move log of the English Opening session: the four seed moves and three more plies, the
  last of them the user's.
\<close>

definition practiceLog :: "string list" where
  "practiceLog = [''c2c4'', ''e7e5'', ''b1c3'', ''g8f6'', ''g2g3'', ''d7d5'', ''c4d5'']"

section \<open>Confidence estimate: \<open>interpolateLogScale\<close> and \<open>accuracyFromGames\<close>\<close>

lemma interpolateLogScale_unfold:
  assumes "0 < lo" "lo < hi"
  shows "interpolateLogScale v lo hi lp hp =
     lp + (log 10 (min hi (max lo v)) - log 10 lo) / (log 10 hi - log 10 lo) * (hp - lp)"
proof -
  have "log 10 lo < log 10 hi" using assms by simp
  then show ?thesis by (simp add: interpolateLogScale_def Let_def)
qed

lemma interpolateLogScale_mono:
  assumes "0 < lo" "lo < hi" "lp \<le> hp" "v \<le> w"
  shows "interpolateLogScale v lo hi lp hp \<le> interpolateLogScale w lo hi lp hp"
proof -
  have d: "0 < log 10 hi - log 10 lo" using assms by simp
  have c: "min hi (max lo v) \<le> min hi (max lo w)" using assms by auto
  have p: "0 < min hi (max lo v)" using assms by auto
  have "log 10 (min hi (max lo v)) \<le> log 10 (min hi (max lo w))"
    using c p by (intro log_mono) simp_all
  then have "(log 10 (min hi (max lo v)) - log 10 lo) / (log 10 hi - log 10 lo)
      \<le> (log 10 (min hi (max lo w)) - log 10 lo) / (log 10 hi - log 10 lo)"
    using d by (intro divide_right_mono) simp_all
  then have "(log 10 (min hi (max lo v)) - log 10 lo) / (log 10 hi - log 10 lo) * (hp - lp)
      \<le> (log 10 (min hi (max lo w)) - log 10 lo) / (log 10 hi - log 10 lo) * (hp - lp)"
    using assms(3) by (intro mult_right_mono) simp_all
  then show ?thesis
    unfolding interpolateLogScale_unfold[OF assms(1,2)] by linarith
qed

lemma interpolateLogScale_at_low:
  assumes "0 < lo" "lo < hi" "v \<le> lo"
  shows "interpolateLogScale v lo hi lp hp = lp"
proof -
  have "min hi (max lo v) = lo" using assms by auto
  then show ?thesis unfolding interpolateLogScale_unfold[OF assms(1,2)] by simp
qed

lemma interpolateLogScale_at_high:
  assumes "0 < lo" "lo < hi" "hi \<le> v"
  shows "interpolateLogScale v lo hi lp hp = hp"
proof -
  have m: "min hi (max lo v) = hi" using assms by auto
  have "log 10 lo < log 10 hi" using assms by simp
  then have "(log 10 hi - log 10 lo) / (log 10 hi - log 10 lo) = 1" by simp
  then show ?thesis unfolding interpolateLogScale_unfold[OF assms(1,2)] m by simp
qed

lemma interpolateLogScale_bounds:
  assumes "0 < lo" "lo < hi" "lp \<le> hp"
  shows "lp \<le> interpolateLogScale v lo hi lp hp" "interpolateLogScale v lo hi lp hp \<le> hp"
proof -
  have "interpolateLogScale lo lo hi lp hp \<le> interpolateLogScale v lo hi lp hp"
    if "lo \<le> v" using interpolateLogScale_mono[OF assms that] .
  then show "lp \<le> interpolateLogScale v lo hi lp hp"
    using interpolateLogScale_at_low[of lo hi v lp hp]
      interpolateLogScale_at_low[of lo hi lo lp hp] assms
    by (cases "lo \<le> v") auto
  have "interpolateLogScale v lo hi lp hp \<le> interpolateLogScale hi lo hi lp hp"
    if "v \<le> hi" using interpolateLogScale_mono[OF assms that] .
  then show "interpolateLogScale v lo hi lp hp \<le> hp"
    using interpolateLogScale_at_high[of lo hi v lp hp]
      interpolateLogScale_at_high[of lo hi hi lp hp] assms
    by (cases "v \<le> hi") auto
qed

lemma interpolateLogScale_isCont:
  assumes "0 < lo" "lo < hi"
  shows "isCont (\<lambda>v. interpolateLogScale v lo hi lp hp) x"
proof -
  have e: "(\<lambda>v. interpolateLogScale v lo hi lp hp) =
     (\<lambda>v. lp + (log 10 (min hi (max lo v)) - log 10 lo) / (log 10 hi - log 10 lo) * (hp - lp))"
    using interpolateLogScale_unfold[OF assms] by auto
  have p: "min hi (max lo x) \<noteq> 0" using assms by auto
  have "log 10 lo < log 10 hi" using assms by simp
  then have q: "log 10 hi - log 10 lo \<noteq> 0" by simp
  show ?thesis unfolding e
    by (intro continuous_intros p q) simp_all
qed

lemma accuracyFromGames_by_branch:
  "accuracyFromGames g = branchValue (accuracyBranch g) g"
  by (simp add: accuracyFromGames_def accuracyBranch_def branchValue_def)

lemma accuracyFromGames_mono_from_11:
  assumes "11 \<le> a" "a \<le> b"
  shows "accuracyFromGames a \<le> accuracyFromGames b"
proof -
  note M1 = interpolateLogScale_mono[of 1000 10000 50 100 a b]
  note M2 = interpolateLogScale_mono[of 100 1000 25 50 a b]
  note M3 = interpolateLogScale_mono[of 11 100 "99/100" 25 a b]
  have b1: "interpolateLogScale x 1000 10000 50 100 \<le> 100"
    "50 \<le> interpolateLogScale x 1000 10000 50 100" for x
    using interpolateLogScale_bounds[of 1000 10000 50 100 x] by simp_all
  have b2: "interpolateLogScale x 100 1000 25 50 \<le> 50"
    "25 \<le> interpolateLogScale x 100 1000 25 50" for x
    using interpolateLogScale_bounds[of 100 1000 25 50 x] by simp_all
  have b3: "interpolateLogScale x 11 100 (99/100) 25 \<le> 25" for x
    using interpolateLogScale_bounds[of 11 100 "99/100" 25 x] by simp_all
  show ?thesis
    using assms M1 M2 M3 b1[of a] b1[of b] b2[of a] b2[of b] b3[of a] b3[of b]
    unfolding accuracyFromGames_def
    by (auto simp: not_le)
qed

lemma accuracyFromGames_upto_10: "g \<le> 10 \<Longrightarrow> accuracyFromGames g = 1"
  by (simp add: accuracyFromGames_def)

lemma accuracyFromGames_anchors:
  "accuracyFromGames 100 = 25" "accuracyFromGames 1000 = 50" "accuracyFromGames 10000 = 100"
  by (simp_all add: accuracyFromGames_def interpolateLogScale_at_low)

lemma accuracyFromGames_10_11:
  "accuracyFromGames 10 = 1" "accuracyFromGames 11 = 99 / 100"
  by (simp_all add: accuracyFromGames_def interpolateLogScale_at_low)

lemma accuracyFromGames_above_1000:
  assumes "1000 < g"
  shows "accuracyFromGames g = interpolateLogScale g 1000 10000 50 100"
  using assms by (simp add: accuracyFromGames_def interpolateLogScale_at_high)

lemma accuracyFromGames_around_1000:
  assumes "100 < g" "g < 10000"
  shows "accuracyFromGames g =
    interpolateLogScale g 1000 10000 50 100 + interpolateLogScale g 100 1000 25 50 - 50"
  using assms
  by (simp add: accuracyFromGames_def interpolateLogScale_at_high interpolateLogScale_at_low)

lemma accuracyFromGames_around_100:
  assumes "11 < g" "g < 1000"
  shows "accuracyFromGames g =
    interpolateLogScale g 100 1000 25 50 + interpolateLogScale g 11 100 (99/100) 25 - 25"
  using assms
  by (simp add: accuracyFromGames_def interpolateLogScale_at_high interpolateLogScale_at_low)

lemma accuracyFromGames_isCont_10000: "isCont accuracyFromGames 10000"
proof -
  have "\<forall>\<^sub>F g in nhds (10000::real).
      accuracyFromGames g = interpolateLogScale g 1000 10000 50 100"
    unfolding eventually_nhds
    by (rule exI[of _ "{1000<..}"]) (auto simp: accuracyFromGames_above_1000)
  then show ?thesis
    using interpolateLogScale_isCont[of 1000 10000 10000 50 100] by (simp add: isCont_cong)
qed

lemma accuracyFromGames_isCont_1000: "isCont accuracyFromGames 1000"
proof -
  have "\<forall>\<^sub>F g in nhds (1000::real). accuracyFromGames g =
      interpolateLogScale g 1000 10000 50 100 + interpolateLogScale g 100 1000 25 50 - 50"
    unfolding eventually_nhds
    by (rule exI[of _ "{100<..<10000}"]) (auto simp: accuracyFromGames_around_1000)
  moreover have "isCont (\<lambda>g. interpolateLogScale g 1000 10000 50 100
      + interpolateLogScale g 100 1000 25 50 - 50) 1000"
    by (intro continuous_intros interpolateLogScale_isCont) simp_all
  ultimately show ?thesis by (simp add: isCont_cong)
qed

lemma accuracyFromGames_isCont_100: "isCont accuracyFromGames 100"
proof -
  have "\<forall>\<^sub>F g in nhds (100::real). accuracyFromGames g =
      interpolateLogScale g 100 1000 25 50 + interpolateLogScale g 11 100 (99/100) 25 - 25"
    unfolding eventually_nhds
    by (rule exI[of _ "{11<..<1000}"]) (auto simp: accuracyFromGames_around_100)
  moreover have "isCont (\<lambda>g. interpolateLogScale g 100 1000 25 50
      + interpolateLogScale g 11 100 (99/100) 25 - 25) 100"
    by (intro continuous_intros interpolateLogScale_isCont) simp_all
  ultimately show ?thesis by (simp add: isCont_cong)
qed

lemma accuracyFromGames_12: "1 \<le> accuracyFromGames 12"
proof -
  have b: "(100 / 11 :: real) \<le> (12 / 11) ^ 2401"
  proof -
    have "1 + real 2401 * (1 / 11) \<le> (1 + 1 / 11 :: real) ^ 2401"
      by (rule Bernoulli_inequality) simp
    then show ?thesis by simp
  qed
  have "log 10 (100 / 11) \<le> log 10 ((12 / 11) ^ 2401)"
    using b by (intro log_mono) simp_all
  also have "\<dots> = 2401 * log 10 (12 / 11)"
    by (simp add: log_nat_power)
  finally have l: "log 10 100 - log 10 11 \<le> 2401 * (log 10 12 - log 10 11)"
    by (simp add: log_divide)
  have d: "0 < log 10 100 - log 10 11"
  proof -
    have "log 10 11 < log 10 100" by (subst log_less_cancel_iff) simp_all
    then show ?thesis by simp
  qed
  have r: "1 / 2401 \<le> (log 10 12 - log 10 11) / (log 10 100 - log 10 11)"
    using l d by (simp add: field_simps)
  have "accuracyFromGames 12 =
      99 / 100 + (log 10 12 - log 10 11) / (log 10 100 - log 10 11) * (25 - 99 / 100)"
    by (simp add: accuracyFromGames_def interpolateLogScale_unfold)
  also have "\<dots> \<ge> 99 / 100 + 1 / 2401 * (25 - 99 / 100)"
    using r by (intro add_left_mono mult_right_mono) simp_all
  finally show ?thesis by simp
qed

lemma accuracyFromGames_mono_nat:
  fixes m n :: nat
  assumes "m \<le> n" "\<not> (m \<le> 10 \<and> n = 11)"
  shows "accuracyFromGames (real m) \<le> accuracyFromGames (real n)"
proof -
  consider "n \<le> 10" | "11 \<le> m" | "m \<le> 10" "12 \<le> n" using assms by linarith
  then show ?thesis
  proof cases
    case 1
    then show ?thesis using assms(1) by (simp add: accuracyFromGames_upto_10)
  next
    case 2
    then show ?thesis using assms(1) by (intro accuracyFromGames_mono_from_11) simp_all
  next
    case 3
    have "accuracyFromGames (real m) = 1" using 3(1) by (simp add: accuracyFromGames_upto_10)
    also have "\<dots> \<le> accuracyFromGames 12" by (rule accuracyFromGames_12)
    also have "\<dots> \<le> accuracyFromGames (real n)"
      using 3(2) by (intro accuracyFromGames_mono_from_11) simp_all
    finally show ?thesis .
  qed
qed

text \<open>
  Claim C3, as stated: \<open>accuracyFromGames\<close> is monotonically non-decreasing over all natural
  sample sizes. It is not: 10 games score 1 and 11 games score 0.99, the value the source
  chooses on purpose ("Keep 11 games below 1%").
\<close>

theorem C3_not_monotone_at_10_11:
  "\<not> (accuracyFromGames (real (10::nat)) \<le> accuracyFromGames (real (11::nat)))"
  using accuracyFromGames_10_11 by simp

text \<open>
  Claim C3, amended: over the natural sample sizes \<open>accuracyFromGames\<close> is monotonically
  non-decreasing except for the step from at most 10 games to exactly 11 games (where it
  drops from 1 to 0.99): \<open>m \<le> n\<close> implies that \<open>n\<close> scores at least what \<open>m\<close> scores
  unless \<open>m \<le> 10\<close> and \<open>n = 11\<close>. At the anchors 100, 1000 and 10000 games it returns
  exactly 25, 50 and 100, and as a function of a real sample size it is continuous at each
  of the three anchors.
\<close>

theorem C3_accuracyFromGames_monotone_except_10_to_11:
  "(\<forall>m n :: nat. m \<le> n \<and> \<not> (m \<le> 10 \<and> n = 11) \<longrightarrow>
      accuracyFromGames (real m) \<le> accuracyFromGames (real n))
   \<and> accuracyFromGames 100 = 25
   \<and> accuracyFromGames 1000 = 50
   \<and> accuracyFromGames 10000 = 100
   \<and> isCont accuracyFromGames 100
   \<and> isCont accuracyFromGames 1000
   \<and> isCont accuracyFromGames 10000"
  using accuracyFromGames_mono_nat accuracyFromGames_anchors accuracyFromGames_isCont_100
    accuracyFromGames_isCont_1000 accuracyFromGames_isCont_10000
  by blast

theorem C3_witness:
  "accuracyFromGames (real (3::nat)) \<le> accuracyFromGames (real (5000::nat))
   \<and> accuracyFromGames (real (10::nat)) \<le> accuracyFromGames (real (12::nat))"
proof -
  have "accuracyFromGames (real (3::nat)) \<le> accuracyFromGames (real (5000::nat))"
    using C3_accuracyFromGames_monotone_except_10_to_11
      [THEN conjunct1, rule_format, of 3 5000] by simp
  moreover have "accuracyFromGames (real (10::nat)) \<le> accuracyFromGames (real (12::nat))"
    using C3_accuracyFromGames_monotone_except_10_to_11
      [THEN conjunct1, rule_format, of 10 12] by simp
  ultimately show ?thesis by simp
qed

text \<open>
  Claim C10: every real sample size strictly between 10 and 11 is decided by the final
  \<open>return 100\<close> of \<open>accuracyFromGames\<close> and so scores 100, although 10 scores 1 and 11
  scores 0.99; no integer sample size reaches that final branch. (\<open>accuracyBranch\<close> is
  the guard that decides: \<open>accuracyFromGames\<close> returns that branch's value.)
\<close>

theorem C10_fallthrough_between_10_and_11:
  "(\<forall>g :: real. accuracyFromGames g = branchValue (accuracyBranch g) g)
   \<and> (\<forall>g :: real. 10 < g \<and> g < 11 \<longrightarrow>
      accuracyBranch g = Fallthrough \<and> accuracyFromGames g = 100)
   \<and> accuracyFromGames 10 = 1
   \<and> accuracyFromGames 11 = 99 / 100
   \<and> (\<forall>n :: int. accuracyBranch (real_of_int n) \<noteq> Fallthrough)"
proof -
  have a: "accuracyBranch g = Fallthrough \<and> accuracyFromGames g = 100"
    if "10 < g \<and> g < 11" for g :: real
    using that by (simp add: accuracyBranch_def accuracyFromGames_def)
  have b: "accuracyBranch (real_of_int n) \<noteq> Fallthrough" for n :: int
  proof -
    have "n \<le> 10 \<or> 11 \<le> n" by linarith
    then have "real_of_int n \<le> 10 \<or> 11 \<le> real_of_int n" by auto
    then show ?thesis by (auto simp: accuracyBranch_def)
  qed
  show ?thesis using a b accuracyFromGames_10_11 accuracyFromGames_by_branch by blast
qed

theorem C10_witness:
  "accuracyBranch (21 / 2) = Fallthrough \<and> accuracyFromGames (21 / 2) = 100"
  using C10_fallthrough_between_10_and_11
    [THEN conjunct2, THEN conjunct1, rule_format, of "21 / 2"]
  by simp

section \<open>Ranking: \<open>buildRankedMoves\<close>\<close>

lemma foldl_plus: "foldl (\<lambda>s e. s + f e) a xs = a + sum_list (map f xs)" for a :: nat
  by (induction xs arbitrary: a) simp_all

lemma sum_list_insort_key:
  "sum_list (map f (insort_key g x xs)) = f x + sum_list (map f xs)" for f :: "'a \<Rightarrow> nat"
  by (induction xs) simp_all

lemma sum_list_sort_key:
  "sum_list (map f (sort_key g xs)) = sum_list (map f xs)" for f :: "'a \<Rightarrow> nat"
  by (induction xs) (simp_all add: sum_list_insort_key)

lemma sum_list_filter_pos:
  "sum_list (map f (filter (\<lambda>x. f x > 0) xs)) = sum_list (map f xs)" for f :: "'a \<Rightarrow> nat"
  by (induction xs) simp_all

lemma sum_list_filter_nonzero:
  "sum_list (map f (filter (\<lambda>x. f x \<noteq> 0) xs)) = sum_list (map f xs)" for f :: "'a \<Rightarrow> nat"
  by (induction xs) simp_all

lemma map_enumerate_proj:
  assumes "\<And>i e. g (mk i e) = h e"
  shows "map g (map (\<lambda>(i, e). mk i e) (enumerate n xs)) = map h xs"
  using assms by (induction xs arbitrary: n) simp_all

lemma map_fst_enumerate:
  "map (\<lambda>p. h (fst p)) (enumerate n xs) = map h [n..<n + length xs]"
  by (induction xs arbitrary: n) (simp_all add: upt_rec)

lemma baseMovesOf_sum:
  "sum_list (map BaseMove.games (baseMovesOf ex)) = sum_list (map candidateGames (moves ex))"
proof -
  have "sum_list (map BaseMove.games (baseMovesOf ex)) =
     sum_list (map BaseMove.games
       (map (\<lambda>m. \<lparr>BaseMove.move = m, BaseMove.games = candidateGames m\<rparr>) (moves ex)))"
    unfolding baseMovesOf_def candidateGames_def
    by (simp only: sum_list_sort_key sum_list_filter_pos)
  then show ?thesis by (simp add: comp_def)
qed

lemma buildRankedMoves_eq:
  "buildRankedMoves ex =
     map (\<lambda>(index, entry).
            \<lparr>rank = index + 1,
             RankedMove.uci = normalizeCastlingUci (ExplorerMove.uci (BaseMove.move entry)),
             RankedMove.san = ExplorerMove.san (BaseMove.move entry),
             RankedMove.games = BaseMove.games entry,
             RankedMove.rate =
               (if rateDenominator ex > 0
                then real (BaseMove.games entry) / real (rateDenominator ex)
                else 0)\<rparr>)
       (enumerate 0 (baseMovesOf ex))"
proof -
  have D: "(if aggregateTotal ex > 0 then aggregateTotal ex
            else foldl (\<lambda>sum entry. sum + BaseMove.games entry) 0 (baseMovesOf ex))
           = rateDenominator ex"
    by (simp add: rateDenominator_def foldl_plus baseMovesOf_sum)
  show ?thesis
    unfolding buildRankedMoves_def Let_def baseMovesOf_def[symmetric]
      aggregateTotal_def[symmetric] D
    by (rule refl)
qed

lemma buildRankedMoves_faces:
  "map rankedFace (buildRankedMoves ex) = map baseFace (baseMovesOf ex)"
  unfolding buildRankedMoves_eq
  by (rule map_enumerate_proj) (simp add: rankedFace_def baseFace_def)

lemma buildRankedMoves_games:
  "map RankedMove.games (buildRankedMoves ex) = map BaseMove.games (baseMovesOf ex)"
  unfolding buildRankedMoves_eq
  by (rule map_enumerate_proj) simp

lemma buildRankedMoves_length:
  "length (buildRankedMoves ex) = length (nonzeroCandidates ex)"
  unfolding buildRankedMoves_eq baseMovesOf_def nonzeroCandidates_def candidateGames_def
  by (simp add: filter_map comp_def)

lemma buildRankedMoves_ranks:
  "map rank (buildRankedMoves ex) = [1..<Suc (length (nonzeroCandidates ex))]"
proof -
  have "map rank (buildRankedMoves ex) = map Suc [0..<length (baseMovesOf ex)]"
    unfolding buildRankedMoves_eq by (simp add: comp_def case_prod_unfold map_fst_enumerate)
  also have "\<dots> = [Suc 0..<Suc (length (baseMovesOf ex))]"
    by (simp only: map_Suc_upt)
  also have "length (baseMovesOf ex) = length (nonzeroCandidates ex)"
    using buildRankedMoves_length[of ex] unfolding buildRankedMoves_eq by simp
  finally show ?thesis by simp
qed

lemma baseMovesOf_sorted:
  "sorted (map (\<lambda>e. - int (BaseMove.games e)) (baseMovesOf ex))"
  unfolding baseMovesOf_def by (rule sorted_sort_key)

lemma buildRankedMoves_descending:
  assumes "i \<le> j" "j < length (buildRankedMoves ex)"
  shows "RankedMove.games (buildRankedMoves ex ! j) \<le> RankedMove.games (buildRankedMoves ex ! i)"
proof -
  have l: "length (baseMovesOf ex) = length (buildRankedMoves ex)"
    using arg_cong[OF buildRankedMoves_games[of ex], of length] by simp
  have "map (\<lambda>e. - int (BaseMove.games e)) (baseMovesOf ex) ! i
      \<le> map (\<lambda>e. - int (BaseMove.games e)) (baseMovesOf ex) ! j"
    using baseMovesOf_sorted[of ex] assms l by (intro sorted_nth_mono) simp_all
  then have "BaseMove.games (baseMovesOf ex ! j) \<le> BaseMove.games (baseMovesOf ex ! i)"
    using assms l by simp
  moreover have "RankedMove.games (buildRankedMoves ex ! k) = BaseMove.games (baseMovesOf ex ! k)"
    if "k < length (buildRankedMoves ex)" for k
    using arg_cong[OF buildRankedMoves_games[of ex], of "\<lambda>xs. xs ! k"] that l by simp
  ultimately show ?thesis using assms by simp
qed

lemma baseMovesOf_stable:
  "map baseFace (filter (\<lambda>e. BaseMove.games e = k) (baseMovesOf ex))
     = map candidateFace (filter (\<lambda>m. candidateGames m = k) (nonzeroCandidates ex))"
proof -
  have "filter (\<lambda>e. BaseMove.games e = k) (baseMovesOf ex)
      = filter (\<lambda>e. - int (BaseMove.games e) = - int k) (baseMovesOf ex)"
    by simp
  also have "\<dots> = filter (\<lambda>e. - int (BaseMove.games e) = - int k)
      (filter (\<lambda>entry. BaseMove.games entry > 0)
         (map (\<lambda>m. \<lparr>BaseMove.move = m,
                      BaseMove.games =
                        ExplorerMove.white m + ExplorerMove.draws m + ExplorerMove.black m\<rparr>)
           (moves ex)))"
    unfolding baseMovesOf_def by (rule sort_key_stable)
  finally show ?thesis
    by (simp add: filter_map comp_def baseFace_def candidateFace_def nonzeroCandidates_def
        candidateGames_def)
qed

lemma buildRankedMoves_stable:
  "map rankedFace (filter (\<lambda>r. RankedMove.games r = k) (buildRankedMoves ex))
     = map candidateFace (filter (\<lambda>m. candidateGames m = k) (nonzeroCandidates ex))"
proof -
  have "map rankedFace (filter (\<lambda>r. RankedMove.games r = k) (buildRankedMoves ex))
     = filter (\<lambda>f. snd (snd f) = k) (map rankedFace (buildRankedMoves ex))"
    by (simp add: filter_map comp_def rankedFace_def)
  also have "\<dots> = filter (\<lambda>f. snd (snd f) = k) (map baseFace (baseMovesOf ex))"
    by (simp only: buildRankedMoves_faces)
  also have "\<dots> = map baseFace (filter (\<lambda>e. BaseMove.games e = k) (baseMovesOf ex))"
    by (simp add: filter_map comp_def baseFace_def)
  finally show ?thesis by (simp only: baseMovesOf_stable)
qed

lemma buildRankedMoves_rate:
  assumes "r \<in> set (buildRankedMoves ex)"
  shows "RankedMove.rate r =
     (if rateDenominator ex > 0 then real (RankedMove.games r) / real (rateDenominator ex)
      else 0)"
  using assms unfolding buildRankedMoves_eq by auto

lemma buildRankedMoves_sum_rates:
  "sum_list (map RankedMove.rate (buildRankedMoves ex)) =
     (if rateDenominator ex > 0
      then real (sum_list (map candidateGames (moves ex))) / real (rateDenominator ex)
      else 0)"
proof -
  have m: "map RankedMove.rate (buildRankedMoves ex) =
      map (\<lambda>e. if rateDenominator ex > 0
                then real (BaseMove.games e) / real (rateDenominator ex) else 0)
        (baseMovesOf ex)"
    unfolding buildRankedMoves_eq
    by (rule map_enumerate_proj) simp
  have d: "sum_list (map (\<lambda>e. real (BaseMove.games e) / d) xs)
      = real (sum_list (map BaseMove.games xs)) / d" for d xs
    by (induction xs) (simp_all add: add_divide_distrib)
  show ?thesis
  proof (cases "rateDenominator ex > 0")
    case True
    then show ?thesis
      unfolding m by (simp add: d[of "real (rateDenominator ex)" "baseMovesOf ex"] baseMovesOf_sum)
  next
    case False
    then show ?thesis unfolding m by simp
  qed
qed

section \<open>The rounding of double arithmetic\<close>

lemma nearestEven_close: "\<bar>of_int (nearestEven y) - y\<bar> \<le> 1 / 2"
  unfolding nearestEven_def Let_def by (auto simp: abs_if) linarith+

lemma roundToDouble_within: "roundsWithin (1 / 2 ^ 53) roundToDouble"
  unfolding roundsWithin_def
proof (intro allI impI)
  fix x :: real assume x0: "0 \<le> x"
  show "\<bar>roundToDouble x - x\<bar> \<le> 1 / 2 ^ 53 * x"
  proof (cases "x = 0")
    case True then show ?thesis by (simp add: roundToDouble_def)
  next
    case False
    then have xp: "0 < x" using x0 by simp
    define e where "e = \<lfloor>log 2 x\<rfloor>"
    define q where "q = (2::real) powr (of_int e - 52)"
    have qp: "0 < q" by (simp add: q_def)
    have le: "2 powr of_int e \<le> x"
    proof -
      have "of_int e \<le> log 2 x" by (simp add: e_def)
      then have "2 powr of_int e \<le> 2 powr log 2 x" by simp
      then show ?thesis using xp by simp
    qed
    have b: "roundToDouble x = of_int (nearestEven (x / q)) * q"
      using xp by (simp add: roundToDouble_def Let_def e_def q_def)
    have "roundToDouble x - x = (of_int (nearestEven (x / q)) - x / q) * q"
      unfolding b using qp by (simp add: left_diff_distrib)
    then have "\<bar>roundToDouble x - x\<bar> = \<bar>of_int (nearestEven (x / q)) - x / q\<bar> * q"
      using qp by (simp add: abs_mult)
    also have "\<dots> \<le> 1 / 2 * q"
      using nearestEven_close[of "x / q"] qp by (intro mult_right_mono) simp_all
    also have "\<dots> = 2 powr of_int e / 2 ^ 53"
      by (simp add: q_def powr_diff)
    also have "\<dots> \<le> x / 2 ^ 53" using le by (simp add: divide_right_mono)
    finally show ?thesis by simp
  qed
qed

lemma roundToDouble_at:
  assumes "0 < x" "2 powr of_int e \<le> x" "x < 2 powr (of_int e + 1)"
  shows "roundToDouble x
     = of_int (nearestEven (x / 2 powr (of_int e - 52))) * 2 powr (of_int e - 52)"
proof -
  have "\<lfloor>log 2 x\<rfloor> = e"
  proof (rule floor_unique)
    show "of_int e \<le> log 2 x" using assms by (simp add: le_log_iff)
    show "log 2 x < of_int e + 1" using assms by (simp add: log_less_iff)
  qed
  then show ?thesis using assms(1) by (simp add: roundToDouble_def Let_def)
qed

lemma roundToDouble_minus: "roundToDouble (- x) = - roundToDouble x"
  by (simp add: roundToDouble_def Let_def sgn_minus)

lemma roundsWithin_upper: "roundsWithin u fl \<Longrightarrow> 0 \<le> x \<Longrightarrow> fl x \<le> x + u * x"
  unfolding roundsWithin_def by (auto simp: abs_le_iff)

lemma roundsWithin_lower: "roundsWithin u fl \<Longrightarrow> 0 \<le> x \<Longrightarrow> x - u * x \<le> fl x"
  unfolding roundsWithin_def by (auto simp: abs_le_iff)

lemma roundToDouble_9_14: "roundToDouble (9 / 14) = 5790342378047781 / 2 ^ 53"
  by (simp add: roundToDouble_at[of _ "-1"] powr_minus nearestEven_def Let_def powr_diff)

lemma roundToDouble_9_28: "roundToDouble (9 / 28) = 5790342378047781 / 2 ^ 54"
  by (simp add: roundToDouble_at[of _ "-2"] powr_minus nearestEven_def Let_def powr_diff)

lemma roundToDouble_1_28: "roundToDouble (1 / 28) = 5146971002709138 / 2 ^ 57"
  by (simp add: roundToDouble_at[of _ "-5"] powr_minus nearestEven_def Let_def powr_diff)

section \<open>Ranking with rounded rates\<close>

lemma buildRankedMovesRounded_exact: "buildRankedMovesRounded (\<lambda>x. x) ex = buildRankedMoves ex"
  unfolding buildRankedMovesRounded_def buildRankedMoves_def by (rule refl)

lemma buildRankedMovesRounded_eq:
  "buildRankedMovesRounded fl ex =
     map (\<lambda>(index, entry).
            \<lparr>rank = index + 1,
             RankedMove.uci = normalizeCastlingUci (ExplorerMove.uci (BaseMove.move entry)),
             RankedMove.san = ExplorerMove.san (BaseMove.move entry),
             RankedMove.games = BaseMove.games entry,
             RankedMove.rate =
               (if rateDenominator ex > 0
                then fl (real (BaseMove.games entry) / real (rateDenominator ex))
                else 0)\<rparr>)
       (enumerate 0 (baseMovesOf ex))"
proof -
  have D: "(if aggregateTotal ex > 0 then aggregateTotal ex
            else foldl (\<lambda>sum entry. sum + BaseMove.games entry) 0 (baseMovesOf ex))
           = rateDenominator ex"
    by (simp add: rateDenominator_def foldl_plus baseMovesOf_sum)
  show ?thesis
    unfolding buildRankedMovesRounded_def Let_def baseMovesOf_def[symmetric]
      aggregateTotal_def[symmetric] D
    by (rule refl)
qed

lemma buildRankedMovesRounded_faces:
  "map rankedFace (buildRankedMovesRounded fl ex) = map rankedFace (buildRankedMoves ex)"
proof -
  have "map rankedFace (buildRankedMovesRounded fl ex) = map baseFace (baseMovesOf ex)"
    unfolding buildRankedMovesRounded_eq
    by (rule map_enumerate_proj) (simp add: rankedFace_def baseFace_def)
  then show ?thesis by (simp only: buildRankedMoves_faces)
qed

lemma buildRankedMovesRounded_length:
  "length (buildRankedMovesRounded fl ex) = length (nonzeroCandidates ex)"
  using arg_cong[OF buildRankedMovesRounded_faces[of fl ex], of length]
  by (simp add: buildRankedMoves_length)

lemma buildRankedMovesRounded_ranks:
  "map rank (buildRankedMovesRounded fl ex) = [1..<Suc (length (nonzeroCandidates ex))]"
proof -
  have "map rank (buildRankedMovesRounded fl ex) = map rank (buildRankedMoves ex)"
    unfolding buildRankedMovesRounded_eq buildRankedMoves_eq
    by (simp add: comp_def case_prod_unfold)
  then show ?thesis by (simp only: buildRankedMoves_ranks)
qed

lemma rankedFace_games: "RankedMove.games r = snd (snd (rankedFace r))"
  by (simp add: rankedFace_def)

lemma buildRankedMovesRounded_nth_games:
  assumes "k < length (nonzeroCandidates ex)"
  shows "RankedMove.games (buildRankedMovesRounded fl ex ! k)
     = RankedMove.games (buildRankedMoves ex ! k)"
proof -
  have "rankedFace (buildRankedMovesRounded fl ex ! k) = rankedFace (buildRankedMoves ex ! k)"
    using arg_cong[OF buildRankedMovesRounded_faces[of fl ex], of "\<lambda>xs. xs ! k"] assms
    by (simp add: buildRankedMovesRounded_length buildRankedMoves_length)
  then show ?thesis by (simp add: rankedFace_games)
qed

lemma buildRankedMovesRounded_descending:
  assumes "i \<le> j" "j < length (buildRankedMovesRounded fl ex)"
  shows "RankedMove.games (buildRankedMovesRounded fl ex ! j)
     \<le> RankedMove.games (buildRankedMovesRounded fl ex ! i)"
proof -
  have j: "j < length (nonzeroCandidates ex)" "i < length (nonzeroCandidates ex)"
    using assms by (simp_all add: buildRankedMovesRounded_length)
  have "RankedMove.games (buildRankedMoves ex ! j) \<le> RankedMove.games (buildRankedMoves ex ! i)"
    using assms(1) j(1) by (intro buildRankedMoves_descending) (simp_all add: buildRankedMoves_length)
  then show ?thesis
    by (simp only: buildRankedMovesRounded_nth_games[OF j(1)] buildRankedMovesRounded_nth_games[OF j(2)])
qed

lemma buildRankedMovesRounded_stable:
  "map rankedFace (filter (\<lambda>r. RankedMove.games r = k) (buildRankedMovesRounded fl ex))
     = map candidateFace (filter (\<lambda>m. candidateGames m = k) (nonzeroCandidates ex))"
proof -
  have f: "map rankedFace (filter (\<lambda>r. RankedMove.games r = k) xs)
     = filter (\<lambda>f. snd (snd f) = k) (map rankedFace xs)" for xs
    by (simp add: filter_map comp_def rankedFace_def)
  show ?thesis
    unfolding f buildRankedMovesRounded_faces
    unfolding f[symmetric] by (rule buildRankedMoves_stable)
qed

lemma buildRankedMovesRounded_rate:
  assumes "r \<in> set (buildRankedMovesRounded fl ex)"
  shows "RankedMove.rate r =
     (if rateDenominator ex > 0
      then fl (real (RankedMove.games r) / real (rateDenominator ex))
      else 0)"
  using assms unfolding buildRankedMovesRounded_eq by auto

lemma sum_rounded_le:
  assumes "roundsWithin u fl" "0 < d"
  shows "sum_list (map (\<lambda>e. fl (real (g e) / d)) xs)
     \<le> (1 + u) * (real (sum_list (map g xs)) / d)"
proof (induction xs)
  case Nil then show ?case by simp
next
  case (Cons x xs)
  have "fl (real (g x) / d) \<le> real (g x) / d + u * (real (g x) / d)"
    using assms by (intro roundsWithin_upper) simp_all
  then show ?case using Cons by (simp add: algebra_simps add_divide_distrib)
qed

lemma buildRankedMovesRounded_sum_rates:
  assumes "0 \<le> u" "roundsWithin u fl"
    "aggregateTotal ex = 0 \<or> sum_list (map candidateGames (moves ex)) \<le> aggregateTotal ex"
  shows "sum_list (map RankedMove.rate (buildRankedMovesRounded fl ex)) \<le> 1 + u"
proof -
  let ?D = "rateDenominator ex"
  let ?S = "sum_list (map candidateGames (moves ex))"
  have m: "map RankedMove.rate (buildRankedMovesRounded fl ex) =
      map (\<lambda>e. if ?D > 0 then fl (real (BaseMove.games e) / real ?D) else 0) (baseMovesOf ex)"
    unfolding buildRankedMovesRounded_eq
    by (rule map_enumerate_proj) simp
  show ?thesis
  proof (cases "?D > 0")
    case True
    have SD: "?S \<le> ?D" using assms(3) True by (auto simp: rateDenominator_def)
    have "sum_list (map RankedMove.rate (buildRankedMovesRounded fl ex))
        = sum_list (map (\<lambda>e. fl (real (BaseMove.games e) / real ?D)) (baseMovesOf ex))"
      unfolding m using True by simp
    also have "\<dots> \<le> (1 + u) * (real (sum_list (map BaseMove.games (baseMovesOf ex))) / real ?D)"
      using assms(2) True by (intro sum_rounded_le) simp_all
    also have "\<dots> = (1 + u) * (real ?S / real ?D)" by (simp only: baseMovesOf_sum)
    also have "\<dots> \<le> (1 + u) * 1"
      using assms(1) SD True by (intro mult_left_mono) simp_all
    finally show ?thesis by simp
  next
    case False
    then show ?thesis unfolding m using assms(1) by simp
  qed
qed

lemma sum_list_insort_key_gen:
  "sum_list (map f (insort_key g x xs)) = f x + sum_list (map f xs)"
  for f :: "'a \<Rightarrow> 'b::comm_monoid_add"
  by (induction xs) (simp_all add: add.left_commute)

lemma sum_list_sort_key_gen:
  "sum_list (map f (sort_key g xs)) = sum_list (map f xs)" for f :: "'a \<Rightarrow> 'b::comm_monoid_add"
  by (induction xs) (simp_all add: sum_list_insort_key_gen)

lemma buildRankedMovesRounded_sum_eq:
  "sum_list (map RankedMove.rate (buildRankedMovesRounded fl ex))
     = sum_list (map (roundedRate fl ex) (nonzeroCandidates ex))"
proof -
  let ?D = "rateDenominator ex"
  let ?r = "\<lambda>n. if ?D > 0 then fl (real n / real ?D) else 0"
  have m: "map RankedMove.rate (buildRankedMovesRounded fl ex) =
      map (\<lambda>e. ?r (BaseMove.games e)) (baseMovesOf ex)"
    unfolding buildRankedMovesRounded_eq
    by (rule map_enumerate_proj) simp
  have "sum_list (map (\<lambda>e. ?r (BaseMove.games e)) (baseMovesOf ex))
      = sum_list (map (\<lambda>e. ?r (BaseMove.games e))
          (filter (\<lambda>entry. BaseMove.games entry > 0)
            (map (\<lambda>m. \<lparr>BaseMove.move = m,
                         BaseMove.games =
                           ExplorerMove.white m + ExplorerMove.draws m + ExplorerMove.black m\<rparr>)
              (moves ex))))"
    unfolding baseMovesOf_def by (rule sum_list_sort_key_gen)
  also have "\<dots> = sum_list (map (roundedRate fl ex) (nonzeroCandidates ex))"
    by (simp add: filter_map comp_def nonzeroCandidates_def candidateGames_def
        roundedRate_def[abs_def] cong: if_cong)
  finally show ?thesis unfolding m .
qed

lemmas example_defs =
  snapshot_def candidate_def candidateGames_def aggregateTotal_def rateDenominator_def
  candidateRate_def nonzeroCandidates_def

text \<open>
  Claim C2, as stated, bounds the sum of the rates by \<open>1 + \<epsilon>\<close> for every snapshot. A
  snapshot whose aggregate total is positive but smaller than its candidates' counts breaks
  the bound: with an aggregate total of 1 game and one candidate with 1000 games the single
  rate is 1000, in exact arithmetic and in double arithmetic alike.
\<close>

theorem C2_rates_exceed_one_on_inconsistent_snapshot:
  "sum_list (map RankedMove.rate (buildRankedMoves snapshot_inconsistent)) = 1000
   \<and> \<not> (sum_list (map RankedMove.rate (buildRankedMoves snapshot_inconsistent)) \<le> 1 + 1)
   \<and> sum_list (map RankedMove.rate (buildRankedMovesRounded roundToDouble snapshot_inconsistent))
       = 1000"
proof -
  have "sum_list (map RankedMove.rate (buildRankedMoves snapshot_inconsistent)) = 1000"
    unfolding buildRankedMoves_sum_rates
    by (simp add: snapshot_inconsistent_def example_defs)
  moreover have "roundToDouble 1000 = 1000"
    by (simp add: roundToDouble_at[of _ "9"] powr_minus nearestEven_def Let_def powr_diff)
  then have "sum_list (map RankedMove.rate
       (buildRankedMovesRounded roundToDouble snapshot_inconsistent)) = 1000"
    unfolding buildRankedMovesRounded_sum_eq
    by (simp add: snapshot_inconsistent_def example_defs roundedRate_def)
  ultimately show ?thesis by simp
qed

text \<open>
  Claim C2, amended: for every snapshot, \<open>buildRankedMoves\<close> keeps exactly the candidates
  with a nonzero game count; the ranked list is in descending order of game count, and the
  ranked moves with any given count are the kept candidates with that count in snapshot
  order (so the sort is stable); the ranks are the sequence 1..N for the N kept candidates;
  each rate is the game count divided by the snapshot's aggregate total when that is
  positive, else by the sum of the candidates' game counts, and 0 when the denominator is 0;
  and the sum of the rates is at most \<open>1 + \<epsilon>\<close> whenever the aggregate total is zero or
  at least the sum of the candidates' game counts. The sum is the exact sum of the rates as
  the program computes them, and \<open>\<epsilon>\<close> is any bound on the relative rounding error of
  the division, \<open>1/2^53\<close> for doubles: the rates 18/28, 9/28 and 1/28 sum to
  \<open>1 + 5/2^56\<close> in double arithmetic.
\<close>

theorem C2_buildRankedMoves_ranking:
  "length (buildRankedMovesRounded fl ex) = length (nonzeroCandidates ex)
   \<and> (\<forall>k. map rankedFace
               (filter (\<lambda>r. RankedMove.games r = k) (buildRankedMovesRounded fl ex))
            = map candidateFace (filter (\<lambda>m. candidateGames m = k) (nonzeroCandidates ex)))
   \<and> (\<forall>i j. i \<le> j \<and> j < length (buildRankedMovesRounded fl ex) \<longrightarrow>
          RankedMove.games (buildRankedMovesRounded fl ex ! j)
            \<le> RankedMove.games (buildRankedMovesRounded fl ex ! i))
   \<and> map rank (buildRankedMovesRounded fl ex) = [1..<Suc (length (nonzeroCandidates ex))]
   \<and> (\<forall>r \<in> set (buildRankedMovesRounded fl ex).
          RankedMove.rate r =
            (if rateDenominator ex > 0
             then fl (real (RankedMove.games r) / real (rateDenominator ex)) else 0))
   \<and> (0 \<le> eps \<and> roundsWithin eps fl
        \<and> (aggregateTotal ex = 0
             \<or> sum_list (map candidateGames (moves ex)) \<le> aggregateTotal ex) \<longrightarrow>
        sum_list (map RankedMove.rate (buildRankedMovesRounded fl ex)) \<le> 1 + eps)"
  using buildRankedMovesRounded_length[of fl ex] buildRankedMovesRounded_stable[of _ fl ex]
    buildRankedMovesRounded_descending[of _ _ fl ex] buildRankedMovesRounded_ranks[of fl ex]
    buildRankedMovesRounded_rate[of _ fl ex] buildRankedMovesRounded_sum_rates[of eps fl ex]
  by blast

theorem C2_witness:
  "map rank (buildRankedMovesRounded roundToDouble snapshot_tie) = [1, 2, 3]
   \<and> map rankedFace (filter (\<lambda>r. RankedMove.games r = 30)
         (buildRankedMovesRounded roundToDouble snapshot_tie))
       = [(''e1g1'', ''O-O'', 30), (''e2e4'', ''e4'', 30)]
   \<and> RankedMove.games (buildRankedMovesRounded roundToDouble snapshot_tie ! 2)
       \<le> RankedMove.games (buildRankedMovesRounded roundToDouble snapshot_tie ! 0)
   \<and> sum_list (map RankedMove.rate (buildRankedMovesRounded roundToDouble snapshot_18_9_1))
       \<le> 1 + 1 / 2 ^ 53
   \<and> sum_list (map RankedMove.rate (buildRankedMovesRounded roundToDouble snapshot_18_9_1))
       = 1 + 5 / 2 ^ 56"
proof -
  note t = C2_buildRankedMoves_ranking[of roundToDouble snapshot_tie]
  have nz: "nonzeroCandidates snapshot_tie =
     [candidate ''c2c4'' ''c4'' 5 0 5, candidate ''E1H1'' ''O-O'' 10 10 10,
      candidate ''e2e4'' ''e4'' 15 0 15]"
    by (simp add: snapshot_tie_def example_defs)
  have len: "length (buildRankedMovesRounded roundToDouble snapshot_tie) = 3"
    using t nz by simp
  have a: "map rank (buildRankedMovesRounded roundToDouble snapshot_tie) = [1, 2, 3]"
    using t nz by (simp add: upt_rec)
  have b: "map rankedFace (filter (\<lambda>r. RankedMove.games r = 30)
         (buildRankedMovesRounded roundToDouble snapshot_tie))
       = [(''e1g1'', ''O-O'', 30), (''e2e4'', ''e4'', 30)]"
    using t[THEN conjunct2, THEN conjunct1, rule_format, of 30] nz
    by (simp add: candidateFace_def candidate_def candidateGames_def normalizeCastlingUci_def
        toLowerCase_def lowerChar_def)
  have c: "RankedMove.games (buildRankedMovesRounded roundToDouble snapshot_tie ! 2)
      \<le> RankedMove.games (buildRankedMovesRounded roundToDouble snapshot_tie ! 0)"
    using t[THEN conjunct2, THEN conjunct2, THEN conjunct1, rule_format, of 0 2] len by simp
  have d: "sum_list (map RankedMove.rate (buildRankedMovesRounded roundToDouble snapshot_18_9_1))
       \<le> 1 + 1 / 2 ^ 53"
    using C2_buildRankedMoves_ranking[of roundToDouble snapshot_18_9_1 "1 / 2 ^ 53",
        THEN conjunct2, THEN conjunct2, THEN conjunct2, THEN conjunct2, THEN conjunct2]
      roundToDouble_within
    by (simp add: snapshot_18_9_1_def example_defs)
  have e: "sum_list (map RankedMove.rate (buildRankedMovesRounded roundToDouble snapshot_18_9_1))
       = 1 + 5 / 2 ^ 56"
    unfolding buildRankedMovesRounded_sum_eq
    by (simp add: snapshot_18_9_1_def example_defs roundedRate_def roundToDouble_9_14
        roundToDouble_9_28 roundToDouble_1_28)
  show ?thesis using a b c d e by blast
qed

section \<open>Weighted choice: \<open>chooseWeightedMove\<close>\<close>

lemma candidateRate_zero: "candidateGames m = 0 \<Longrightarrow> candidateRate ex m = 0"
  by (simp add: candidateRate_def)

lemma candidateRate_pos_nonzero: "candidateRate ex m > 0 \<Longrightarrow> candidateGames m \<noteq> 0"
  using candidateRate_zero[of m ex] by auto

lemma nonzeroCandidates_sum:
  "sum_list (map candidateGames (nonzeroCandidates ex)) = sum_list (map candidateGames (moves ex))"
  unfolding nonzeroCandidates_def by (rule sum_list_filter_nonzero)

lemma unrated_eq:
  "filter (\<lambda>entry. WeightedMove.games entry > 0)
     (map (\<lambda>m. \<lparr>WeightedMove.move = m,
                  WeightedMove.games =
                    ExplorerMove.white m + ExplorerMove.draws m + ExplorerMove.black m,
                  WeightedMove.rate = 0\<rparr>)
       (moves ex))
   = map (\<lambda>m. \<lparr>WeightedMove.move = m, WeightedMove.games = candidateGames m,
                 WeightedMove.rate = 0\<rparr>)
       (nonzeroCandidates ex)"
  by (simp add: filter_map comp_def nonzeroCandidates_def candidateGames_def)

lemma weightedMovesOf_eq: "weightedMovesOf ex = map (weigh ex) (nonzeroCandidates ex)"
proof -
  have D: "(if aggregateTotal ex > 0 then aggregateTotal ex
            else foldl (\<lambda>sum entry. sum + WeightedMove.games entry) 0
                   (map (\<lambda>m. \<lparr>WeightedMove.move = m, WeightedMove.games = candidateGames m,
                                WeightedMove.rate = 0\<rparr>)
                     (nonzeroCandidates ex)))
           = rateDenominator ex"
    by (simp add: rateDenominator_def foldl_plus comp_def nonzeroCandidates_sum)
  show ?thesis
    unfolding weightedMovesOf_def Let_def unrated_eq aggregateTotal_def[symmetric] D
    by (simp add: weigh_def candidateRate_def)
qed

lemma chooseWeightedMove_unfold:
  "chooseWeightedMove random ex pct flag =
     (if flag then
        (case weightedMovesOf ex of
           [] \<Rightarrow> \<lparr>selected = None, selectedRate = 0, usedFallbackPool = False\<rparr>
         | first # rest \<Rightarrow>
             (let mostCommon =
                    foldl (\<lambda>best current.
                             if WeightedMove.games current > WeightedMove.games best
                             then current else best)
                      first rest
              in \<lparr>selected = Some (WeightedMove.move mostCommon),
                  selectedRate = WeightedMove.rate mostCommon,
                  usedFallbackPool = False\<rparr>))
      else
        (let minRate = max 0 pct / 100;
             filtered = filter (\<lambda>entry. WeightedMove.rate entry > minRate) (weightedMovesOf ex);
             pool = (if length filtered > 0 then filtered else weightedMovesOf ex)
         in case pool of
              [] \<Rightarrow> \<lparr>selected = None, selectedRate = 0, usedFallbackPool = False\<rparr>
            | first # rest \<Rightarrow>
                (let totalWeight = foldl (\<lambda>sum entry. sum + WeightedMove.games entry) 0 pool
                 in if totalWeight \<le> 0 then
                      \<lparr>selected = Some (WeightedMove.move first),
                       selectedRate = WeightedMove.rate first,
                       usedFallbackPool = (length filtered = 0)\<rparr>
                    else
                      (case walkPool (random * real totalWeight) pool of
                         Some entry \<Rightarrow>
                           \<lparr>selected = Some (WeightedMove.move entry),
                            selectedRate = WeightedMove.rate entry,
                            usedFallbackPool = (length filtered = 0)\<rparr>
                       | None \<Rightarrow>
                           \<lparr>selected = Some (WeightedMove.move (last pool)),
                            selectedRate = WeightedMove.rate (last pool),
                            usedFallbackPool = (length filtered = 0)\<rparr>))))"
  unfolding chooseWeightedMove_def weightedMovesOf_def Let_def by (rule refl)

lemma chooseWeightedMove_fallback_lists:
  "usedFallbackPool (chooseWeightedMove random ex pct False) \<longleftrightarrow>
     weightedMovesOf ex \<noteq> []
     \<and> filter (\<lambda>entry. WeightedMove.rate entry > max 0 pct / 100) (weightedMovesOf ex) = []"
proof -
  define ws where "ws = weightedMovesOf ex"
  define fs where "fs = filter (\<lambda>entry. WeightedMove.rate entry > max 0 pct / 100) ws"
  define pool where "pool = (if length fs > 0 then fs else ws)"
  have E: "chooseWeightedMove random ex pct False =
     (case pool of
        [] \<Rightarrow> \<lparr>selected = None, selectedRate = 0, usedFallbackPool = False\<rparr>
      | first # rest \<Rightarrow>
          (if foldl (\<lambda>sum entry. sum + WeightedMove.games entry) 0 pool \<le> 0 then
             \<lparr>selected = Some (WeightedMove.move first),
              selectedRate = WeightedMove.rate first,
              usedFallbackPool = (length fs = 0)\<rparr>
           else
             (case walkPool
                     (random * real (foldl (\<lambda>sum entry. sum + WeightedMove.games entry) 0 pool))
                     pool of
                Some entry \<Rightarrow>
                  \<lparr>selected = Some (WeightedMove.move entry),
                   selectedRate = WeightedMove.rate entry,
                   usedFallbackPool = (length fs = 0)\<rparr>
              | None \<Rightarrow>
                  \<lparr>selected = Some (WeightedMove.move (last pool)),
                   selectedRate = WeightedMove.rate (last pool),
                   usedFallbackPool = (length fs = 0)\<rparr>)))"
    unfolding chooseWeightedMove_unfold pool_def fs_def ws_def Let_def by simp
  have "usedFallbackPool (chooseWeightedMove random ex pct False) \<longleftrightarrow> ws \<noteq> [] \<and> fs = []"
    unfolding E pool_def by (cases fs; cases ws) (simp_all split: option.splits)
  then show ?thesis unfolding ws_def fs_def .
qed

lemma chooseWeightedMove_fallback_iff:
  "usedFallbackPool (chooseWeightedMove random ex pct False) \<longleftrightarrow>
     nonzeroCandidates ex \<noteq> []
     \<and> (\<forall>m \<in> set (nonzeroCandidates ex). candidateRate ex m \<le> max 0 pct / 100)"
  unfolding chooseWeightedMove_fallback_lists weightedMovesOf_eq
  by (auto simp: filter_empty_conv weigh_def not_less)

section \<open>Weighted choice with rounded rates\<close>

lemma walkPoolRounded_exact: "walkPoolRounded (\<lambda>x. x) t ws = walkPool t ws"
  by (induction ws arbitrary: t) (simp_all add: Let_def)

lemma chooseWeightedMoveRounded_exact:
  "chooseWeightedMoveRounded (\<lambda>x. x) random ex pct flag = chooseWeightedMove random ex pct flag"
  unfolding chooseWeightedMoveRounded_def chooseWeightedMove_def walkPoolRounded_exact
  by (rule refl)

lemma weightedMovesOfRounded_eq:
  "weightedMovesOfRounded fl ex = map (weighRounded fl ex) (nonzeroCandidates ex)"
proof -
  have D: "(if aggregateTotal ex > 0 then aggregateTotal ex
            else foldl (\<lambda>sum entry. sum + WeightedMove.games entry) 0
                   (map (\<lambda>m. \<lparr>WeightedMove.move = m, WeightedMove.games = candidateGames m,
                                WeightedMove.rate = 0\<rparr>)
                     (nonzeroCandidates ex)))
           = rateDenominator ex"
    by (simp add: rateDenominator_def foldl_plus comp_def nonzeroCandidates_sum)
  show ?thesis
    unfolding weightedMovesOfRounded_def Let_def unrated_eq aggregateTotal_def[symmetric] D
    by (simp add: weighRounded_def roundedRate_def)
qed

lemma chooseWeightedMoveRounded_unfold:
  "chooseWeightedMoveRounded fl random ex pct False =
     (let filtered = filter (\<lambda>entry. WeightedMove.rate entry > fl (max 0 pct / 100))
                       (weightedMovesOfRounded fl ex);
          pool = (if length filtered > 0 then filtered else weightedMovesOfRounded fl ex)
      in case pool of
           [] \<Rightarrow> \<lparr>selected = None, selectedRate = 0, usedFallbackPool = False\<rparr>
         | first # rest \<Rightarrow>
             (let totalWeight = foldl (\<lambda>sum entry. sum + WeightedMove.games entry) 0 pool
              in if totalWeight \<le> 0 then
                   \<lparr>selected = Some (WeightedMove.move first),
                    selectedRate = WeightedMove.rate first,
                    usedFallbackPool = (length filtered = 0)\<rparr>
                 else
                   (case walkPoolRounded fl (fl (random * real totalWeight)) pool of
                      Some entry \<Rightarrow>
                        \<lparr>selected = Some (WeightedMove.move entry),
                         selectedRate = WeightedMove.rate entry,
                         usedFallbackPool = (length filtered = 0)\<rparr>
                    | None \<Rightarrow>
                        \<lparr>selected = Some (WeightedMove.move (last pool)),
                         selectedRate = WeightedMove.rate (last pool),
                         usedFallbackPool = (length filtered = 0)\<rparr>)))"
  unfolding chooseWeightedMoveRounded_def weightedMovesOfRounded_def Let_def by simp

lemma filtered_eq:
  "filter (\<lambda>entry. WeightedMove.rate entry > fl (max 0 pct / 100)) (weightedMovesOfRounded fl ex)
     = map (weighRounded fl ex) (aboveThreshold fl ex pct)"
  unfolding weightedMovesOfRounded_eq aboveThreshold_def
  by (simp add: filter_map comp_def weighRounded_def)

lemma walkPoolRounded_Some:
  "walkPoolRounded fl t ws = Some e \<Longrightarrow>
     \<exists>i < length ws. e = ws ! i
       \<and> (\<forall>j < i. 0 < thresholdAfter fl t (map WeightedMove.games (take (Suc j) ws)))
       \<and> thresholdAfter fl t (map WeightedMove.games (take (Suc i) ws)) \<le> 0"
proof (induction ws arbitrary: t)
  case Nil then show ?case by simp
next
  case (Cons w ws)
  let ?t = "fl (t - real (WeightedMove.games w))"
  show ?case
  proof (cases "?t \<le> 0")
    case True
    then have "e = w" using Cons.prems by (simp add: Let_def)
    then show ?thesis using True by (intro exI[of _ 0]) simp
  next
    case False
    then have "walkPoolRounded fl ?t ws = Some e" using Cons.prems by (simp add: Let_def)
    from Cons.IH[OF this] obtain i where i: "i < length ws" "e = ws ! i"
      "\<forall>j < i. 0 < thresholdAfter fl ?t (map WeightedMove.games (take (Suc j) ws))"
      "thresholdAfter fl ?t (map WeightedMove.games (take (Suc i) ws)) \<le> 0" by blast
    have "\<forall>j < Suc i. 0 < thresholdAfter fl t (map WeightedMove.games (take (Suc j) (w # ws)))"
    proof (intro allI impI)
      fix j assume j: "j < Suc i"
      show "0 < thresholdAfter fl t (map WeightedMove.games (take (Suc j) (w # ws)))"
      proof (cases j)
        case 0 then show ?thesis using False by simp
      next
        case (Suc j') then show ?thesis using i(3) j by simp
      qed
    qed
    then show ?thesis using i by (intro exI[of _ "Suc i"]) simp
  qed
qed

lemma walkPoolRounded_None:
  "walkPoolRounded fl t ws = None \<Longrightarrow>
     \<forall>j < length ws. 0 < thresholdAfter fl t (map WeightedMove.games (take (Suc j) ws))"
proof (induction ws arbitrary: t)
  case Nil then show ?case by simp
next
  case (Cons w ws)
  let ?t = "fl (t - real (WeightedMove.games w))"
  have f: "\<not> ?t \<le> 0" using Cons.prems by (auto simp: Let_def split: if_splits)
  then have "walkPoolRounded fl ?t ws = None" using Cons.prems by (simp add: Let_def)
  from Cons.IH[OF this] have ih:
    "\<forall>j < length ws. 0 < thresholdAfter fl ?t (map WeightedMove.games (take (Suc j) ws))" .
  show ?case
  proof (intro allI impI)
    fix j assume j: "j < length (w # ws)"
    show "0 < thresholdAfter fl t (map WeightedMove.games (take (Suc j) (w # ws)))"
    proof (cases j)
      case 0 then show ?thesis using f by simp
    next
      case (Suc j') then show ?thesis using ih j by simp
    qed
  qed
qed

lemma weighRounded_games: "map WeightedMove.games (map (weighRounded fl ex) ms) = map candidateGames ms"
  by (simp add: weighRounded_def comp_def)

text \<open>The draw from a nonempty pool of candidates with games.\<close>

lemma draw_from_pool:
  assumes "pool \<noteq> []" "\<forall>m \<in> set pool. candidateGames m \<noteq> 0"
    and c: "c =
      (case map (weighRounded fl ex) pool of
           [] \<Rightarrow> \<lparr>selected = None, selectedRate = 0, usedFallbackPool = False\<rparr>
         | first # rest \<Rightarrow>
             (let totalWeight = foldl (\<lambda>sum entry. sum + WeightedMove.games entry) 0
                                  (map (weighRounded fl ex) pool)
              in if totalWeight \<le> 0 then
                   \<lparr>selected = Some (WeightedMove.move first),
                    selectedRate = WeightedMove.rate first,
                    usedFallbackPool = flag\<rparr>
                 else
                   (case walkPoolRounded fl (fl (random * real totalWeight))
                           (map (weighRounded fl ex) pool) of
                      Some entry \<Rightarrow>
                        \<lparr>selected = Some (WeightedMove.move entry),
                         selectedRate = WeightedMove.rate entry,
                         usedFallbackPool = flag\<rparr>
                    | None \<Rightarrow>
                        \<lparr>selected = Some (WeightedMove.move (last (map (weighRounded fl ex) pool))),
                         selectedRate = WeightedMove.rate (last (map (weighRounded fl ex) pool)),
                         usedFallbackPool = flag\<rparr>)))"
  shows "drawnFrom fl random ex pool c \<and> usedFallbackPool c = flag"
proof -
  let ?ws = "map (weighRounded fl ex) pool"
  let ?W = "sum_list (map candidateGames pool)"
  let ?t = "fl (random * real ?W)"
  have W: "foldl (\<lambda>sum entry. sum + WeightedMove.games entry) 0 ?ws = ?W"
    by (simp add: foldl_plus comp_def weighRounded_def)
  obtain m ms where p: "pool = m # ms" using assms(1) by (cases pool) auto
  have "candidateGames m \<noteq> 0" using assms(2) p by simp
  then have Wp: "0 < ?W" using p by simp
  have g: "map WeightedMove.games (take k ?ws) = map candidateGames (take k pool)" for k
    by (simp add: take_map weighRounded_def comp_def)
  have nth: "WeightedMove.move (?ws ! i) = pool ! i"
    "WeightedMove.rate (?ws ! i) = roundedRate fl ex (pool ! i)" if "i < length pool" for i
    using that by (simp_all add: weighRounded_def)
  have c': "c =
     (case walkPoolRounded fl ?t ?ws of
        Some entry \<Rightarrow>
          \<lparr>selected = Some (WeightedMove.move entry),
           selectedRate = WeightedMove.rate entry,
           usedFallbackPool = flag\<rparr>
      | None \<Rightarrow>
          \<lparr>selected = Some (WeightedMove.move (last ?ws)),
           selectedRate = WeightedMove.rate (last ?ws),
           usedFallbackPool = flag\<rparr>)"
  proof -
    obtain f r where fr: "?ws = f # r" using assms(1) by (cases ?ws) auto
    have notle: "\<not> ?W \<le> 0" using Wp by linarith
    show ?thesis unfolding c W Let_def by (simp only: fr list.case notle if_False)
  qed
  show ?thesis
  proof (cases "walkPoolRounded fl ?t ?ws")
    case None
    from walkPoolRounded_None[OF this]
    have all: "\<forall>j < length pool. 0 < thresholdAfter fl ?t (map candidateGames (take (Suc j) pool))"
      unfolding g by simp
    have l: "last ?ws = ?ws ! (length pool - 1)"
      using assms(1) by (simp add: last_conv_nth)
    have i: "length pool - 1 < length pool" using assms(1) by simp
    have "selected c = Some (pool ! (length pool - 1))"
      "selectedRate c = roundedRate fl ex (pool ! (length pool - 1))"
      "usedFallbackPool c = flag"
      unfolding c' None l using nth[OF i] by simp_all
    then show ?thesis
      unfolding drawnFrom_def using i all by (intro conjI exI[of _ "length pool - 1"]) simp_all
  next
    case (Some e)
    from walkPoolRounded_Some[OF this] obtain i where i: "i < length pool" "e = ?ws ! i"
      "\<forall>j < i. 0 < thresholdAfter fl ?t (map candidateGames (take (Suc j) pool))"
      "thresholdAfter fl ?t (map candidateGames (take (Suc i) pool)) \<le> 0"
      unfolding g by auto
    have "selected c = Some (pool ! i)" "selectedRate c = roundedRate fl ex (pool ! i)"
      "usedFallbackPool c = flag"
      unfolding c' Some i(2) using nth[OF i(1)] by simp_all
    then show ?thesis
      unfolding drawnFrom_def using i by (intro conjI exI[of _ i]) simp_all
  qed
qed

lemma nonzeroCandidates_games: "\<forall>m \<in> set (nonzeroCandidates ex). candidateGames m \<noteq> 0"
  by (simp add: nonzeroCandidates_def)

lemma aboveThreshold_games: "\<forall>m \<in> set (aboveThreshold fl ex pct). candidateGames m \<noteq> 0"
  by (simp add: aboveThreshold_def nonzeroCandidates_def)

lemma chooseWeightedMoveRounded_pool:
  assumes "pool \<noteq> []" "\<forall>m \<in> set pool. candidateGames m \<noteq> 0"
    "(if length (map (weighRounded fl ex) (aboveThreshold fl ex pct)) > 0
      then map (weighRounded fl ex) (aboveThreshold fl ex pct)
      else weightedMovesOfRounded fl ex) = map (weighRounded fl ex) pool"
  shows "drawnFrom fl random ex pool (chooseWeightedMoveRounded fl random ex pct False)
     \<and> usedFallbackPool (chooseWeightedMoveRounded fl random ex pct False)
         = (length (map (weighRounded fl ex) (aboveThreshold fl ex pct)) = 0)"
  by (rule draw_from_pool[OF assms(1,2)])
    (unfold chooseWeightedMoveRounded_unfold filtered_eq Let_def assms(3), rule refl)

lemma chooseWeightedMoveRounded_above:
  assumes "aboveThreshold fl ex pct \<noteq> []"
  shows "drawnFrom fl random ex (aboveThreshold fl ex pct)
           (chooseWeightedMoveRounded fl random ex pct False)"
    and "\<not> usedFallbackPool (chooseWeightedMoveRounded fl random ex pct False)"
  using chooseWeightedMoveRounded_pool[of "aboveThreshold fl ex pct" fl ex pct random]
    assms aboveThreshold_games[of fl ex pct]
  by simp_all

lemma chooseWeightedMoveRounded_fallback:
  assumes "aboveThreshold fl ex pct = []" "nonzeroCandidates ex \<noteq> []"
  shows "drawnFrom fl random ex (nonzeroCandidates ex)
           (chooseWeightedMoveRounded fl random ex pct False)"
    and "usedFallbackPool (chooseWeightedMoveRounded fl random ex pct False)"
  using chooseWeightedMoveRounded_pool[of "nonzeroCandidates ex" fl ex pct random]
    assms nonzeroCandidates_games[of ex]
  by (simp_all add: weightedMovesOfRounded_eq)

lemma chooseWeightedMoveRounded_none:
  assumes "nonzeroCandidates ex = []"
  shows "selected (chooseWeightedMoveRounded fl random ex pct False) = None"
    and "\<not> usedFallbackPool (chooseWeightedMoveRounded fl random ex pct False)"
  using assms
  by (simp_all add: chooseWeightedMoveRounded_unfold weightedMovesOfRounded_eq Let_def)

lemma chooseWeightedMoveRounded_fallback_iff:
  "usedFallbackPool (chooseWeightedMoveRounded fl random ex pct False) \<longleftrightarrow>
     nonzeroCandidates ex \<noteq> [] \<and> aboveThreshold fl ex pct = []"
  using chooseWeightedMoveRounded_above(2)[of fl ex pct random]
    chooseWeightedMoveRounded_fallback(2)[of fl ex pct random]
    chooseWeightedMoveRounded_none(2)[of ex fl random pct]
  by blast
lemma roundedRate_candidateRate:
  "roundedRate fl ex m = (if rateDenominator ex > 0 then fl (candidateRate ex m) else 0)"
  by (simp add: roundedRate_def candidateRate_def)

lemma candidateRate_pos_denominator: "candidateRate ex m > 0 \<Longrightarrow> rateDenominator ex > 0"
  by (cases "rateDenominator ex > 0") (simp_all add: candidateRate_def)

lemma threshold_10_bounds:
  assumes "roundsWithin u fl" "0 \<le> u" "u \<le> 1 / 4"
  shows "3 / 40 \<le> fl (max 0 10 / 100)" "fl (max 0 10 / 100) \<le> 1 / 8"
  using roundsWithin_lower[OF assms(1), of "1 / 10"] roundsWithin_upper[OF assms(1), of "1 / 10"]
    assms(2,3)
  by simp_all

lemma chooseWeightedMoveRounded_5_95:
  assumes "roundsWithin u fl" "0 \<le> u" "u \<le> 1 / 4"
    "moves ex = [a, b]" "candidateRate ex a = 5 / 100" "candidateRate ex b = 95 / 100"
  shows "\<not> usedFallbackPool (chooseWeightedMoveRounded fl random ex 10 False)"
    and "selected (chooseWeightedMoveRounded fl random ex 10 False) = Some b"
proof -
  have nz: "nonzeroCandidates ex = [a, b]"
    using assms candidateRate_pos_nonzero[of ex a] candidateRate_pos_nonzero[of ex b]
    by (simp add: nonzeroCandidates_def)
  have D: "rateDenominator ex > 0"
    using candidateRate_pos_denominator[of ex a] assms(5) by simp
  have ra: "fl (5 / 100) \<le> 1 / 16"
    using roundsWithin_upper[OF assms(1), of "5 / 100"] assms(2,3) by simp
  have rb: "57 / 80 \<le> fl (95 / 100)"
    using roundsWithin_lower[OF assms(1), of "95 / 100"] assms(2,3) by simp
  note th = threshold_10_bounds[OF assms(1,2,3)]
  have q: "roundedRate fl ex a = fl (5 / 100)" "roundedRate fl ex b = fl (95 / 100)"
    using D by (simp_all add: roundedRate_candidateRate assms(5,6))
  have above: "aboveThreshold fl ex 10 = [b]"
    unfolding aboveThreshold_def nz using ra rb th by (simp add: q)
  show "\<not> usedFallbackPool (chooseWeightedMoveRounded fl random ex 10 False)"
    using chooseWeightedMoveRounded_above(2)[of fl ex 10 random] above by simp
  show "selected (chooseWeightedMoveRounded fl random ex 10 False) = Some b"
    using chooseWeightedMoveRounded_above(1)[of fl ex 10 random] above
    by (simp add: drawnFrom_def)
qed

lemma chooseWeightedMoveRounded_50_50:
  assumes "roundsWithin u fl" "0 \<le> u" "u \<le> 1 / 4"
    "moves ex = [a, b]" "candidateRate ex a = 1 / 2" "candidateRate ex b = 1 / 2"
  shows "\<not> usedFallbackPool (chooseWeightedMoveRounded fl random ex 10 False)"
    and "drawnFrom fl random ex [a, b] (chooseWeightedMoveRounded fl random ex 10 False)"
proof -
  have nz: "nonzeroCandidates ex = [a, b]"
    using assms candidateRate_pos_nonzero[of ex a] candidateRate_pos_nonzero[of ex b]
    by (simp add: nonzeroCandidates_def)
  have D: "rateDenominator ex > 0"
    using candidateRate_pos_denominator[of ex a] assms(5) by simp
  have r: "3 / 8 \<le> fl (1 / 2)"
    using roundsWithin_lower[OF assms(1), of "1 / 2"] assms(2,3) by simp
  note th = threshold_10_bounds[OF assms(1,2,3)]
  have q: "roundedRate fl ex a = fl (1 / 2)" "roundedRate fl ex b = fl (1 / 2)"
    using D by (simp_all add: roundedRate_candidateRate assms(5,6))
  have above: "aboveThreshold fl ex 10 = [a, b]"
    unfolding aboveThreshold_def nz using r th by (simp add: q)
  show "\<not> usedFallbackPool (chooseWeightedMoveRounded fl random ex 10 False)"
    using chooseWeightedMoveRounded_above(2)[of fl ex 10 random] above by simp
  show "drawnFrom fl random ex [a, b] (chooseWeightedMoveRounded fl random ex 10 False)"
    using chooseWeightedMoveRounded_above(1)[of fl ex 10 random] above by simp
qed

lemma roundToDouble_values:
  "roundToDouble (1 / 20) = 7205759403792794 / 2 ^ 57"
  "roundToDouble (1 / 10) = 7205759403792794 / 2 ^ 56"
  "roundToDouble (35 / 4) = 35 / 4"
  "roundToDouble (15 / 4) = 15 / 4"
  "roundToDouble (5 / 4) = 5 / 4"
  "roundToDouble (28 / 5) = 6305039478318694 / 2 ^ 50"
  "roundToDouble (6305039478318694 / 2 ^ 50 / 100) = 8070450532247928 / 2 ^ 57"
  "roundToDouble (7 / 125) = 8070450532247929 / 2 ^ 57"
  by (simp add: roundToDouble_at[of _ "-5"] powr_minus nearestEven_def Let_def powr_diff,
      simp add: roundToDouble_at[of _ "-4"] powr_minus nearestEven_def Let_def powr_diff,
      simp add: roundToDouble_at[of _ "3"] powr_minus nearestEven_def Let_def powr_diff,
      simp add: roundToDouble_at[of _ "1"] powr_minus nearestEven_def Let_def powr_diff,
      simp add: roundToDouble_at[of _ "0"] powr_minus nearestEven_def Let_def powr_diff,
      simp add: roundToDouble_at[of _ "2"] powr_minus nearestEven_def Let_def powr_diff,
      simp add: roundToDouble_at[of _ "-5"] powr_minus nearestEven_def Let_def powr_diff,
      simp add: roundToDouble_at[of _ "-5"] powr_minus nearestEven_def Let_def powr_diff)

text \<open>
  Claim C5, as stated, says that with threshold 10% a pool with rates 5% and 95% falls back
  to the full pool and reports \<open>usedFallbackPool = true\<close>. The candidate with 95% clears
  the threshold, so the filtered pool is not empty and nothing falls back, in exact
  arithmetic and in double arithmetic alike.
\<close>

theorem C5_no_fallback_on_5_95:
  "candidateRate snapshot_5_95 (moves snapshot_5_95 ! 0) = 5 / 100
   \<and> candidateRate snapshot_5_95 (moves snapshot_5_95 ! 1) = 95 / 100
   \<and> \<not> usedFallbackPool (chooseWeightedMove (1 / 2) snapshot_5_95 10 False)
   \<and> \<not> usedFallbackPool (chooseWeightedMoveRounded roundToDouble (1 / 2) snapshot_5_95 10 False)"
proof -
  have r: "candidateRate snapshot_5_95 (candidate ''a2a3'' ''a3'' 2 1 2) = 5 / 100"
    "candidateRate snapshot_5_95 (candidate ''e2e4'' ''e4'' 40 15 40) = 95 / 100"
    "moves snapshot_5_95
       = [candidate ''a2a3'' ''a3'' 2 1 2, candidate ''e2e4'' ''e4'' 40 15 40]"
    by (simp_all add: snapshot_5_95_def example_defs)
  have "\<not> usedFallbackPool
          (chooseWeightedMoveRounded roundToDouble (1 / 2) snapshot_5_95 10 False)"
    by (rule chooseWeightedMoveRounded_5_95(1)[OF roundToDouble_within _ _ r(3) r(1) r(2)])
      simp_all
  moreover have "\<not> usedFallbackPool (chooseWeightedMove (1 / 2) snapshot_5_95 10 False)"
    by (simp add: chooseWeightedMove_fallback_iff snapshot_5_95_def example_defs)
  ultimately show ?thesis using r by simp
qed

text \<open>
  Claim C5, amended: with \<open>alwaysPlayMostCommonMove = false\<close> and threshold 10%,
  \<open>chooseWeightedMove\<close> on a pool with rates 5% (A) and 95% (B) does not fall back: it
  reports \<open>usedFallbackPool = false\<close> and selects B, the only candidate above the
  threshold, whatever the random draw; on a pool with rates 50% and 50% it does not fall
  back either and draws from both candidates. Both hold for every rounding with a relative
  error of at most 1/4.

  The theorem also states the rule behind the two cases, for any snapshot, threshold, random
  number and rounding: \<open>usedFallbackPool = true\<close> is reported exactly when there is a
  candidate with games and none of them has a rate above the threshold, rate and threshold
  as the program computes them. The choice is then drawn from the full pool of candidates
  with games, and otherwise from the candidates above the threshold: it is the first
  candidate of that pool, in snapshot order, at which the random number times the pool's
  total game count is used up by the game counts so far, and the last candidate of the pool
  when the loop runs out. With no candidate with games nothing is selected.
\<close>

theorem C5_fallback_to_full_pool_only_when_none_above_threshold:
  "(roundsWithin u fl \<and> 0 \<le> u \<and> u \<le> 1 / 4
      \<and> moves ex = [a, b] \<and> candidateRate ex a = 5 / 100 \<and> candidateRate ex b = 95 / 100 \<longrightarrow>
      \<not> usedFallbackPool (chooseWeightedMoveRounded fl random ex 10 False)
      \<and> selected (chooseWeightedMoveRounded fl random ex 10 False) = Some b)
   \<and> (roundsWithin u fl \<and> 0 \<le> u \<and> u \<le> 1 / 4
      \<and> moves ex = [a, b] \<and> candidateRate ex a = 1 / 2 \<and> candidateRate ex b = 1 / 2 \<longrightarrow>
      \<not> usedFallbackPool (chooseWeightedMoveRounded fl random ex 10 False)
      \<and> drawnFrom fl random ex [a, b] (chooseWeightedMoveRounded fl random ex 10 False))
   \<and> (usedFallbackPool (chooseWeightedMoveRounded fl random ex pct False) \<longleftrightarrow>
        nonzeroCandidates ex \<noteq> [] \<and> aboveThreshold fl ex pct = [])
   \<and> (usedFallbackPool (chooseWeightedMoveRounded fl random ex pct False) \<longrightarrow>
        drawnFrom fl random ex (nonzeroCandidates ex)
          (chooseWeightedMoveRounded fl random ex pct False))
   \<and> (aboveThreshold fl ex pct \<noteq> [] \<longrightarrow>
        drawnFrom fl random ex (aboveThreshold fl ex pct)
          (chooseWeightedMoveRounded fl random ex pct False))
   \<and> (nonzeroCandidates ex = [] \<longrightarrow>
        selected (chooseWeightedMoveRounded fl random ex pct False) = None)"
proof -
  have A: "roundsWithin u fl \<and> 0 \<le> u \<and> u \<le> 1 / 4
      \<and> moves ex = [a, b] \<and> candidateRate ex a = 5 / 100 \<and> candidateRate ex b = 95 / 100 \<longrightarrow>
      \<not> usedFallbackPool (chooseWeightedMoveRounded fl random ex 10 False)
      \<and> selected (chooseWeightedMoveRounded fl random ex 10 False) = Some b"
    using chooseWeightedMoveRounded_5_95[of u fl ex a b random] by blast
  have B: "roundsWithin u fl \<and> 0 \<le> u \<and> u \<le> 1 / 4
      \<and> moves ex = [a, b] \<and> candidateRate ex a = 1 / 2 \<and> candidateRate ex b = 1 / 2 \<longrightarrow>
      \<not> usedFallbackPool (chooseWeightedMoveRounded fl random ex 10 False)
      \<and> drawnFrom fl random ex [a, b] (chooseWeightedMoveRounded fl random ex 10 False)"
    using chooseWeightedMoveRounded_50_50[of u fl ex a b random] by blast
  have C: "usedFallbackPool (chooseWeightedMoveRounded fl random ex pct False) \<longleftrightarrow>
        nonzeroCandidates ex \<noteq> [] \<and> aboveThreshold fl ex pct = []"
    by (rule chooseWeightedMoveRounded_fallback_iff)
  have D: "usedFallbackPool (chooseWeightedMoveRounded fl random ex pct False) \<longrightarrow>
        drawnFrom fl random ex (nonzeroCandidates ex)
          (chooseWeightedMoveRounded fl random ex pct False)"
    using C chooseWeightedMoveRounded_fallback(1)[of fl ex pct random] by blast
  have E: "aboveThreshold fl ex pct \<noteq> [] \<longrightarrow>
        drawnFrom fl random ex (aboveThreshold fl ex pct)
          (chooseWeightedMoveRounded fl random ex pct False)"
    using chooseWeightedMoveRounded_above(1)[of fl ex pct random] by blast
  have F: "nonzeroCandidates ex = [] \<longrightarrow>
        selected (chooseWeightedMoveRounded fl random ex pct False) = None"
    using chooseWeightedMoveRounded_none(1)[of ex fl random pct] by blast
  show ?thesis by (intro conjI A B C D E F)
qed

theorem C5_witness:
  "selected (chooseWeightedMoveRounded roundToDouble (7 / 8) snapshot_5_95 10 False)
     = Some (candidate ''e2e4'' ''e4'' 40 15 40)
   \<and> \<not> usedFallbackPool (chooseWeightedMoveRounded roundToDouble (7 / 8) snapshot_5_95 10 False)
   \<and> \<not> usedFallbackPool (chooseWeightedMoveRounded roundToDouble (7 / 8) snapshot_50_50 10 False)
   \<and> usedFallbackPool (chooseWeightedMoveRounded roundToDouble (7 / 8) snapshot_5_5 10 False)
   \<and> selected (chooseWeightedMoveRounded roundToDouble (7 / 8) snapshot_5_5 10 False)
     = Some (candidate ''h2h3'' ''h3'' 2 1 2)
   \<and> \<not> usedFallbackPool
         (chooseWeightedMoveRounded roundToDouble (7 / 8) snapshot_7_of_125
            (roundToDouble (28 / 5)) False)
   \<and> selected
         (chooseWeightedMoveRounded roundToDouble (7 / 8) snapshot_7_of_125
            (roundToDouble (28 / 5)) False)
       = Some (candidate ''e2e4'' ''e4'' 3 1 3)
   \<and> selected (chooseWeightedMoveRounded roundToDouble (7 / 8) (snapshot 0 0 0 []) 10 False)
       = None"
proof -
  have u: "roundsWithin (1 / 2 ^ 53) roundToDouble" "(0::real) \<le> 1 / 2 ^ 53"
    "(1::real) / 2 ^ 53 \<le> 1 / 4"
    by (rule roundToDouble_within) simp_all
  have a: "selected (chooseWeightedMoveRounded roundToDouble (7 / 8) snapshot_5_95 10 False)
       = Some (candidate ''e2e4'' ''e4'' 40 15 40)
     \<and> \<not> usedFallbackPool (chooseWeightedMoveRounded roundToDouble (7 / 8) snapshot_5_95 10 False)"
    using C5_fallback_to_full_pool_only_when_none_above_threshold
      [of "1 / 2 ^ 53" roundToDouble snapshot_5_95 "candidate ''a2a3'' ''a3'' 2 1 2"
        "candidate ''e2e4'' ''e4'' 40 15 40" "7 / 8", THEN conjunct1] u
    by (simp add: snapshot_5_95_def example_defs)
  have b: "\<not> usedFallbackPool (chooseWeightedMoveRounded roundToDouble (7 / 8) snapshot_50_50 10 False)"
    using C5_fallback_to_full_pool_only_when_none_above_threshold
      [of "1 / 2 ^ 53" roundToDouble snapshot_50_50 "candidate ''d2d4'' ''d4'' 20 10 20"
        "candidate ''e2e4'' ''e4'' 20 10 20" "7 / 8", THEN conjunct2, THEN conjunct1] u
    by (simp add: snapshot_50_50_def example_defs)
  note t = C5_fallback_to_full_pool_only_when_none_above_threshold
      [of _ roundToDouble snapshot_5_5 _ _ "7 / 8" 10, THEN conjunct2, THEN conjunct2]
  have nz: "nonzeroCandidates snapshot_5_5
      = [candidate ''a2a3'' ''a3'' 2 1 2, candidate ''h2h3'' ''h3'' 2 1 2]"
    by (simp add: snapshot_5_5_def example_defs)
  have above: "aboveThreshold roundToDouble snapshot_5_5 10 = []"
    by (simp add: aboveThreshold_def roundedRate_def snapshot_5_5_def example_defs
        roundToDouble_values)
  have c: "usedFallbackPool (chooseWeightedMoveRounded roundToDouble (7 / 8) snapshot_5_5 10 False)"
    using t[THEN conjunct1] nz above by simp
  have "drawnFrom roundToDouble (7 / 8) snapshot_5_5 (nonzeroCandidates snapshot_5_5)
      (chooseWeightedMoveRounded roundToDouble (7 / 8) snapshot_5_5 10 False)"
    using t[THEN conjunct2, THEN conjunct1] c by blast
  then have d: "selected (chooseWeightedMoveRounded roundToDouble (7 / 8) snapshot_5_5 10 False)
     = Some (candidate ''h2h3'' ''h3'' 2 1 2)"
    unfolding drawnFrom_def nz
    by (auto simp: less_Suc_eq candidate_def candidateGames_def roundToDouble_values)
  have thr: "roundToDouble (max 0 (roundToDouble (28 / 5)) / 100) = 8070450532247928 / 2 ^ 57"
    by (simp add: roundToDouble_values(6))
      (simp add: roundToDouble_at[of _ "-5"] powr_minus nearestEven_def Let_def powr_diff)
  have above7: "aboveThreshold roundToDouble snapshot_7_of_125 (roundToDouble (28 / 5))
      = [candidate ''e2e4'' ''e4'' 3 1 3]"
    unfolding aboveThreshold_def thr
    by (simp add: roundedRate_def snapshot_7_of_125_def example_defs roundToDouble_values)
  note t7 = C5_fallback_to_full_pool_only_when_none_above_threshold
      [of _ roundToDouble snapshot_7_of_125 _ _ "7 / 8" "roundToDouble (28 / 5)",
        THEN conjunct2, THEN conjunct2]
  have e: "\<not> usedFallbackPool
         (chooseWeightedMoveRounded roundToDouble (7 / 8) snapshot_7_of_125
            (roundToDouble (28 / 5)) False)"
    using t7[THEN conjunct1] above7 by simp
  have f: "selected
         (chooseWeightedMoveRounded roundToDouble (7 / 8) snapshot_7_of_125
            (roundToDouble (28 / 5)) False)
       = Some (candidate ''e2e4'' ''e4'' 3 1 3)"
    using t7[THEN conjunct2, THEN conjunct2, THEN conjunct1] above7
    by (simp add: drawnFrom_def)
  have g: "selected (chooseWeightedMoveRounded roundToDouble (7 / 8) (snapshot 0 0 0 []) 10 False)
       = None"
    using C5_fallback_to_full_pool_only_when_none_above_threshold
      [of _ roundToDouble "snapshot 0 0 0 []" _ _ "7 / 8" 10,
        THEN conjunct2, THEN conjunct2, THEN conjunct2, THEN conjunct2, THEN conjunct2]
    by (simp add: example_defs)
  show ?thesis using a b c d e f g by blast
qed

section \<open>The most common move\<close>

lemma foldl_first_maximum:
  fixes g :: "'a \<Rightarrow> nat"
  shows "\<exists>i < length (x # xs).
     foldl (\<lambda>best current. if g current > g best then current else best) x xs = (x # xs) ! i
     \<and> (\<forall>j < length (x # xs). g ((x # xs) ! j) \<le> g ((x # xs) ! i))
     \<and> (\<forall>j < i. g ((x # xs) ! j) < g ((x # xs) ! i))"
proof (induction xs rule: rev_induct)
  case Nil
  then show ?case by simp
next
  case (snoc y xs)
  let ?f = "\<lambda>best current. if g current > g best then current else best"
  from snoc obtain i where i: "i < length (x # xs)" "foldl ?f x xs = (x # xs) ! i"
    "\<forall>j < length (x # xs). g ((x # xs) ! j) \<le> g ((x # xs) ! i)"
    "\<forall>j < i. g ((x # xs) ! j) < g ((x # xs) ! i)" by blast
  have nth_old: "(x # xs @ [y]) ! j = (x # xs) ! j" if "j < length (x # xs)" for j
    using that by (metis append_Cons nth_append)
  have nth_new: "(x # xs @ [y]) ! length (x # xs) = y"
    by (metis append_Cons nth_append_length)
  show ?case
  proof (cases "g y > g ((x # xs) ! i)")
    case True
    have "foldl ?f x (xs @ [y]) = y" using True i(2) by simp
    moreover have "\<forall>j < length (x # xs @ [y]). g ((x # xs @ [y]) ! j) \<le> g y"
    proof (intro allI impI)
      fix j assume "j < length (x # xs @ [y])"
      then consider "j < length (x # xs)" | "j = length (x # xs)" by fastforce
      then show "g ((x # xs @ [y]) ! j) \<le> g y"
      proof cases
        case 1
        then show ?thesis using nth_old[OF 1] i(3) True by (metis le_trans less_imp_le_nat)
      next
        case 2
        then show ?thesis using nth_new by simp
      qed
    qed
    moreover have "\<forall>j < length (x # xs). g ((x # xs @ [y]) ! j) < g y"
    proof (intro allI impI)
      fix j assume j: "j < length (x # xs)"
      show "g ((x # xs @ [y]) ! j) < g y"
        using nth_old[OF j] i(3) True j by (metis le_less_trans)
    qed
    ultimately show ?thesis
      using nth_new by (intro exI[of _ "length (x # xs)"]) simp
  next
    case False
    have "foldl ?f x (xs @ [y]) = (x # xs) ! i" using False i(2) by simp
    moreover have "\<forall>j < length (x # xs @ [y]). g ((x # xs @ [y]) ! j) \<le> g ((x # xs) ! i)"
    proof (intro allI impI)
      fix j assume "j < length (x # xs @ [y])"
      then consider "j < length (x # xs)" | "j = length (x # xs)" by fastforce
      then show "g ((x # xs @ [y]) ! j) \<le> g ((x # xs) ! i)"
      proof cases
        case 1
        then show ?thesis using nth_old[OF 1] i(3) by simp
      next
        case 2
        then show ?thesis using nth_new False by simp
      qed
    qed
    moreover have "\<forall>j < i. g ((x # xs @ [y]) ! j) < g ((x # xs) ! i)"
      using i(1,4) nth_old by (metis less_trans)
    ultimately show ?thesis
      using i(1) nth_old[OF i(1)] by (intro exI[of _ i]) simp
  qed
qed

lemma chooseWeightedMove_mostCommon:
  "chooseWeightedMove random ex pct True =
     (case map (weigh ex) (nonzeroCandidates ex) of
        [] \<Rightarrow> \<lparr>selected = None, selectedRate = 0, usedFallbackPool = False\<rparr>
      | first # rest \<Rightarrow>
          \<lparr>selected =
             Some (WeightedMove.move
                (foldl (\<lambda>best current.
                          if WeightedMove.games current > WeightedMove.games best
                          then current else best) first rest)),
           selectedRate =
             WeightedMove.rate
               (foldl (\<lambda>best current.
                         if WeightedMove.games current > WeightedMove.games best
                         then current else best) first rest),
           usedFallbackPool = False\<rparr>)"
  unfolding chooseWeightedMove_unfold weightedMovesOf_eq by (simp add: Let_def split: list.split)

lemma mostCommon_none:
  "selected (chooseWeightedMove random ex pct True) = None \<longleftrightarrow> nonzeroCandidates ex = []"
  unfolding chooseWeightedMove_mostCommon by (cases "nonzeroCandidates ex") simp_all

lemma mostCommon_first_maximum:
  assumes "nonzeroCandidates ex \<noteq> []"
  shows "\<exists>i < length (nonzeroCandidates ex).
      selected (chooseWeightedMove random ex pct True) = Some (nonzeroCandidates ex ! i)
      \<and> (\<forall>j < length (nonzeroCandidates ex).
            candidateGames (nonzeroCandidates ex ! j) \<le> candidateGames (nonzeroCandidates ex ! i))
      \<and> (\<forall>j < i.
            candidateGames (nonzeroCandidates ex ! j) < candidateGames (nonzeroCandidates ex ! i))"
proof -
  obtain m ms where nz: "nonzeroCandidates ex = m # ms"
    using assms by (cases "nonzeroCandidates ex") auto
  let ?W = "map (weigh ex) (m # ms)"
  let ?f = "\<lambda>best current.
              if WeightedMove.games current > WeightedMove.games best then current else best"
  from foldl_first_maximum
    [where g = WeightedMove.games and x = "weigh ex m" and xs = "map (weigh ex) ms"]
  obtain i where i: "i < length ?W" "foldl ?f (weigh ex m) (map (weigh ex) ms) = ?W ! i"
    "\<forall>j < length ?W. WeightedMove.games (?W ! j) \<le> WeightedMove.games (?W ! i)"
    "\<forall>j < i. WeightedMove.games (?W ! j) < WeightedMove.games (?W ! i)"
    by auto
  have w: "?W ! j = weigh ex ((m # ms) ! j)" if "j < length (m # ms)" for j
    using that by (simp only: nth_map)
  have il: "i < length (m # ms)" using i(1) by simp
  have a: "\<forall>j < length (m # ms). candidateGames ((m # ms) ! j) \<le> candidateGames ((m # ms) ! i)"
  proof (intro allI impI)
    fix j assume j: "j < length (m # ms)"
    then have "WeightedMove.games (?W ! j) \<le> WeightedMove.games (?W ! i)" using i(3) by simp
    then show "candidateGames ((m # ms) ! j) \<le> candidateGames ((m # ms) ! i)"
      unfolding w[OF j] w[OF il] by (simp add: weigh_def)
  qed
  have b: "\<forall>j < i. candidateGames ((m # ms) ! j) < candidateGames ((m # ms) ! i)"
  proof (intro allI impI)
    fix j assume j: "j < i"
    then have jl: "j < length (m # ms)" using il by simp
    have "WeightedMove.games (?W ! j) < WeightedMove.games (?W ! i)" using i(4) j by simp
    then show "candidateGames ((m # ms) ! j) < candidateGames ((m # ms) ! i)"
      unfolding w[OF jl] w[OF il] by (simp add: weigh_def)
  qed
  have s: "selected (chooseWeightedMove random ex pct True) = Some ((m # ms) ! i)"
    unfolding chooseWeightedMove_mostCommon nz using i(2) w[OF il] by (simp add: weigh_def)
  show ?thesis unfolding nz using il a b s by blast
qed

lemma mostCommon_deterministic:
  "chooseWeightedMove random ex pct True = chooseWeightedMove random' ex pct' True"
  unfolding chooseWeightedMove_mostCommon ..

lemma mostCommon_40_90_10:
  assumes "moves ex = [a, b, c]" "candidateGames a = 40" "candidateGames b = 90"
    "candidateGames c = 10"
  shows "selected (chooseWeightedMove random ex pct True) = Some b"
proof -
  have nz: "nonzeroCandidates ex = [a, b, c]" using assms by (simp add: nonzeroCandidates_def)
  show ?thesis unfolding chooseWeightedMove_mostCommon nz using assms by (simp add: weigh_def)
qed

text \<open>
  Claim C6: with \<open>alwaysPlayMostCommonMove = true\<close> the result of \<open>chooseWeightedMove\<close>
  does not depend on the random draw (nor on the threshold); it is "no selection" exactly
  when no candidate has a nonzero game count; otherwise it is the candidate with the largest
  game count among those with a nonzero count, the first such in snapshot order on ties. For
  candidates with 40, 90 and 10 games it is the second.
\<close>

theorem C6_most_common_is_first_maximum:
  "chooseWeightedMove random ex pct True = chooseWeightedMove random' ex pct' True
   \<and> (selected (chooseWeightedMove random ex pct True) = None \<longleftrightarrow> nonzeroCandidates ex = [])
   \<and> (nonzeroCandidates ex \<noteq> [] \<longrightarrow>
        (\<exists>i < length (nonzeroCandidates ex).
           selected (chooseWeightedMove random ex pct True) = Some (nonzeroCandidates ex ! i)
           \<and> (\<forall>j < length (nonzeroCandidates ex).
                 candidateGames (nonzeroCandidates ex ! j)
                   \<le> candidateGames (nonzeroCandidates ex ! i))
           \<and> (\<forall>j < i.
                 candidateGames (nonzeroCandidates ex ! j)
                   < candidateGames (nonzeroCandidates ex ! i))))
   \<and> (moves ex = [a, b, c] \<and> candidateGames a = 40 \<and> candidateGames b = 90
        \<and> candidateGames c = 10 \<longrightarrow>
        selected (chooseWeightedMove random ex pct True) = Some b)"
  using mostCommon_deterministic[of random ex pct random' pct'] mostCommon_none[of random ex pct]
    mostCommon_first_maximum[of ex random pct] mostCommon_40_90_10[of ex a b c random pct]
  by blast

theorem C6_witness:
  "selected (chooseWeightedMove (1 / 3) snapshot_40_90_10 10 True)
     = Some (candidate ''e2e4'' ''e4'' 40 10 40)
   \<and> chooseWeightedMove (1 / 3) snapshot_40_90_10 10 True
       = chooseWeightedMove (2 / 3) snapshot_40_90_10 25 True"
proof -
  note t = C6_most_common_is_first_maximum
    [of "1 / 3" snapshot_40_90_10 10 "2 / 3" 25 "candidate ''d2d4'' ''d4'' 20 0 20"
      "candidate ''e2e4'' ''e4'' 40 10 40" "candidate ''c2c4'' ''c4'' 5 0 5"]
  have "selected (chooseWeightedMove (1 / 3) snapshot_40_90_10 10 True)
     = Some (candidate ''e2e4'' ''e4'' 40 10 40)"
    using t[THEN conjunct2, THEN conjunct2, THEN conjunct2]
    by (simp add: snapshot_40_90_10_def example_defs)
  moreover have "chooseWeightedMove (1 / 3) snapshot_40_90_10 10 True
       = chooseWeightedMove (2 / 3) snapshot_40_90_10 25 True"
    using t by blast
  ultimately show ?thesis by blast
qed

section \<open>Grading: \<open>buildMoveReview\<close>\<close>








section \<open>Properties of the session controller\<close>

subsection \<open>Tokens\<close>

lemma lowerChar_idem: "lowerChar (lowerChar c) = lowerChar c"
  by (simp add: lowerChar_def)

lemma toLowerCase_idem: "toLowerCase (toLowerCase s) = toLowerCase s"
  by (simp add: toLowerCase_def lowerChar_idem)

lemma toLowerCase_consts:
  "toLowerCase ''e1g1'' = ''e1g1''" "toLowerCase ''e1c1'' = ''e1c1''"
  "toLowerCase ''e8g8'' = ''e8g8''" "toLowerCase ''e8c8'' = ''e8c8''"
  by (simp_all add: toLowerCase_def lowerChar_def)

lemma normalize_idem: "normalizeCastlingUci (normalizeCastlingUci u) = normalizeCastlingUci u"
  by (simp add: normalizeCastlingUci_def Let_def toLowerCase_idem toLowerCase_consts)

lemma normalize_not_castle:
  "normalizeCastlingUci u \<notin> {''e1h1'', ''e1a1'', ''e8h8'', ''e8a8''}"
  by (simp add: normalizeCastlingUci_def Let_def)

lemma seeds_normalized:
  "\<forall>preset \<in> set OPENINGS. \<forall>t \<in> set (seedMoves preset). castlingNormalized t"
  by (simp add: OPENINGS_def castlingNormalized_def normalizeCastlingUci_def toLowerCase_def lowerChar_def)

lemma selectedOpening_in: "selectedOpening oid \<in> set OPENINGS"
proof (cases "find (\<lambda>preset. OpeningPreset.id preset = oid) OPENINGS")
  case None
  then show ?thesis by (simp add: selectedOpening_def OPENINGS_def)
next
  case (Some p)
  then have "p \<in> set OPENINGS" unfolding find_Some_iff by (metis nth_mem)
  then show ?thesis using Some by (simp add: selectedOpening_def)
qed

subsection \<open>Replay and the undo loop\<close>




declare undoLoop.simps [simp del]


lemma undoLoop_step:
  assumes "L < length (hp @ [x])" "chessUndo g = Some (m, gp)"
  shows "undoLoop rules user L (g, hp @ [x], c, u) =
     (if turn rules gp = user then (gp, hp, c + 1, if color m = user then u + 1 else u)
      else undoLoop rules user L (gp, hp, c + 1, if color m = user then u + 1 else u))"
  using assms by (subst undoLoop.simps) (simp add: Let_def)


subsection \<open>What each transition does to the move log\<close>

lemma normalizedLog_simps [simp]:
  "normalizedLog []"
  "normalizedLog (h @ [t]) \<longleftrightarrow> normalizedLog h \<and> castlingNormalized t"
  by (auto simp: normalizedLog_def)

lemma castlingNormalized_normalize [simp]: "castlingNormalized (normalizeCastlingUci u)"
  by (simp add: castlingNormalized_def normalize_idem)

lemma castlingNormalized_toUci [simp]: "castlingNormalized (toUci m)"
  by (simp add: toUci_def)

lemma normalizedLog_take: "normalizedLog h \<Longrightarrow> normalizedLog (take k h)"
  unfolding normalizedLog_def by (meson in_set_takeD)

lemma log_clearBrilliant [simp]: "moveHistoryUci (clearBrilliantHighlight st) = moveHistoryUci st"
  by (simp add: clearBrilliantHighlight_def)

lemma log_flash [simp]: "moveHistoryUci (flashBrilliantSquare sq st) = moveHistoryUci st"
  by (simp add: flashBrilliantSquare_def)

lemma log_flashElapsed [simp]: "moveHistoryUci (brilliantFlashElapsed st) = moveHistoryUci st"
  by (simp add: brilliantFlashElapsed_def)

lemma log_record [simp]: "moveHistoryUci (recordAccuracySample n st) = moveHistoryUci st"
  by (simp add: recordAccuracySample_def Let_def)

lemma log_reset [simp]: "moveHistoryUci (resetSession st) = []"
  by (simp add: resetSession_def clearSessionState_def Let_def)

lemma inv_playBotMove:
  assumes "playBotMove g h c sid st = (st', new)" "normalizedLog h"
  shows "moveHistoryUci st' = moveHistoryUci st \<and> (\<forall>p \<in> set new. pendingOk p)"
  using assms by (auto simp: playBotMove_def pendingOk_def)

lemma log_startFinally [simp]: "moveHistoryUci (startPracticeFinally sid st) = moveHistoryUci st"
  by (simp add: startPracticeFinally_def)

lemma log_botTry:
  "moveHistoryUci (playBotMoveTry rules random g h c sid explorer st) = moveHistoryUci st
   \<or> (\<exists>t. moveHistoryUci (playBotMoveTry rules random g h c sid explorer st) = h @ [t]
          \<and> castlingNormalized t)"
  by (auto simp: playBotMoveTry_def Let_def split: option.splits)

lemma log_botSettled:
  assumes "playBotMoveSettled rules random g h c sid outcome st = (st', new)"
  shows "new = [] \<and> (moveHistoryUci st' = moveHistoryUci st
     \<or> (\<exists>t. moveHistoryUci st' = h @ [t] \<and> castlingNormalized t))"
proof (cases outcome)
  case (Inl err)
  then show ?thesis using assms
    by (auto simp: playBotMoveSettled_def playBotMoveFinally_def playBotMoveCatch_def)
next
  case (Inr explorer)
  then show ?thesis using assms log_botTry[of rules random g h c sid explorer st]
    by (auto simp: playBotMoveSettled_def playBotMoveFinally_def)
qed

lemma inv_scoreSettled:
  assumes "scoreUserMoveSettled rules before g next mv c sid outcome st = (st', new)"
    "normalizedLog next"
  shows "moveHistoryUci st' = moveHistoryUci st \<and> (\<forall>p \<in> set new. pendingOk p)"
  using assms
  by (cases outcome)
     (auto simp: scoreUserMoveSettled_def scoreUserMoveTry_def scoreUserMoveCatch_def Let_def
        pendingOk_def split: if_splits)

lemma log_hintTry [simp]: "moveHistoryUci (requestHintTry c sid explorer st) = moveHistoryUci st"
  by (cases "buildRankedMoves explorer") (simp_all add: requestHintTry_def)

lemma inv_hintSettled:
  assumes "requestHintSettled c sid outcome st = (st', new)"
  shows "moveHistoryUci st' = moveHistoryUci st \<and> new = []"
  using assms
  by (cases outcome)
     (auto simp: requestHintSettled_def requestHintCatch_def requestHintFinally_def)

lemma inv_positionSettled:
  assumes "positionGamesSettled cancelled sid outcome st = (st', new)"
  shows "moveHistoryUci st' = moveHistoryUci st \<and> new = []"
proof (cases outcome)
  case (Inl err)
  then show ?thesis using assms
    by (cases "cancelled \<or> sid \<noteq> sessionIdRef st") (auto simp: positionGamesSettled_def Let_def)
next
  case (Inr explorer)
  then show ?thesis using assms
    by (cases "cancelled \<or> sid \<noteq> sessionIdRef st") (auto simp: positionGamesSettled_def Let_def)
qed

lemma inv_requestHint:
  assumes "requestHint rules st = (st', new)"
  shows "moveHistoryUci st' = moveHistoryUci st \<and> (\<forall>p \<in> set new. pendingOk p)"
  using assms by (auto simp: requestHint_def pendingOk_def split: option.splits if_splits)

lemma inv_effect:
  assumes "positionGamesEffect st = (st', new)"
  shows "moveHistoryUci st' = moveHistoryUci st \<and> (\<forall>p \<in> set new. pendingOk p)"
  using assms by (auto simp: positionGamesEffect_def pendingOk_def split: option.splits)

lemma inv_afterSeeding:
  assumes "startPracticeAfterSeeding rules g h c sid st = (st', new)"
  shows "moveHistoryUci st' = moveHistoryUci st
    \<and> (normalizedLog h \<longrightarrow> (\<forall>p \<in> set new. pendingOk p))"
  using assms
  by (auto simp: startPracticeAfterSeeding_def pendingOk_def split: if_splits)

lemma log_seedLoop:
  assumes "seedLoop rules index g h c sid st = (st', new)"
    "openingPreset c \<in> set OPENINGS"
  shows "(moveHistoryUci st' = moveHistoryUci st
          \<or> (\<exists>t. moveHistoryUci st' = h @ [t] \<and> castlingNormalized t))
         \<and> (normalizedLog h \<longrightarrow> (\<forall>p \<in> set new. pendingOk p))"
proof (cases "index < length (seedMoves (openingPreset c))")
  case False
  then have "startPracticeAfterSeeding rules g h c sid (startPracticeFinally sid st) = (st', new)"
    using assms(1) by (simp add: seedLoop_def)
  from inv_afterSeeding[OF this] show ?thesis by simp
next
  case True
  let ?t = "seedMoves (openingPreset c) ! index"
  have tn: "castlingNormalized ?t"
    using seeds_normalized assms(2) True by (meson nth_mem)
  show ?thesis
  proof (cases "sid \<noteq> sessionIdRef st")
    case True
    then show ?thesis using assms(1) \<open>index < _\<close> by (auto simp: seedLoop_def)
  next
    case cur: False
    show ?thesis
    proof (cases "chessMove rules g (parseUci ?t)")
      case None
      then show ?thesis using assms(1) True cur by (auto simp: seedLoop_def)
    next
      case (Some r)
      obtain made g1 where r: "r = (made, g1)" by (cases r)
      let ?st1 = "st\<lparr>game := chessFromFen g1, moveHistoryUci := h @ [?t],
          status := [Text ''Setting up opening line... '', Plain (index + 1), Text ''/'',
             Plain (length (seedMoves (openingPreset c))), Text '' ('',
             Text (Move.san made), Text '')'']\<rparr>"
      show ?thesis
      proof (cases "index < length (seedMoves (openingPreset c)) - 1")
        case True
        then have "st' = ?st1" "new = [AwaitDelay (SeedDelay (index + 1) g1 (h @ [?t]) c sid)]"
          using assms(1) \<open>index < length _\<close> cur Some r by (auto simp: seedLoop_def Let_def)
        then show ?thesis using tn assms(2) by (auto simp: pendingOk_def)
      next
        case False
        then have "startPracticeAfterSeeding rules g1 (h @ [?t]) c sid
            (startPracticeFinally sid ?st1) = (st', new)"
          using assms(1) True cur Some r by (auto simp: seedLoop_def Let_def)
        from inv_afterSeeding[OF this] tn show ?thesis by auto
      qed
    qed
  qed
qed

lemma inv_startPractice:
  assumes "startPractice rules oid e pct flag st = (st', new)"
  shows "normalizedLog (moveHistoryUci st') \<and> (\<forall>p \<in> set new. pendingOk p)"
proof -
  let ?c = "\<lparr>openingPreset = selectedOpening oid, elo = e,
             eloRatings = buildRatingsFilterFromTargetElo e, speed = Rapid,
             botMoveThresholdPercent = pct, alwaysPlayMostCommonMove = flag\<rparr>"
  obtain st1 where s: "seedLoop rules 0 newChess [] ?c (sessionIdRef st + 1) st1 = (st', new)"
    "moveHistoryUci st1 = []"
    using assms by (auto simp: startPractice_def Let_def)
  have "openingPreset ?c \<in> set OPENINGS" using selectedOpening_in by simp
  from log_seedLoop[OF s(1) this] s(2) show ?thesis by (auto simp: normalizedLog_def)
qed

lemma undoLoop_prefix:
  assumes "undoLoop rules user L (g, h, c, u) = (g', h', c', u')"
  shows "\<exists>k. h' = take k h"
  using assms
proof (induction h arbitrary: g c u rule: rev_induct)
  case Nil
  then show ?case by (simp add: undoLoop.simps)
next
  case (snoc x hp)
  show ?case
  proof (cases "L < length (hp @ [x])")
    case False
    then show ?thesis using snoc.prems by (simp add: undoLoop.simps) (metis take_all order_refl)
  next
    case True
    show ?thesis
    proof (cases "chessUndo g")
      case None
      then have "h' = hp @ [x]" using snoc.prems True by (simp add: undoLoop.simps)
      then show ?thesis by (metis take_all order_refl)
    next
      case (Some r)
      obtain m gp where r: "r = (m, gp)" by (cases r)
      note step = undoLoop_step[OF True Some[unfolded r], of rules user c u]
      show ?thesis
      proof (cases "turn rules gp = user")
        case True
        then have "h' = hp" using snoc.prems step by simp
        then show ?thesis by (intro exI[of _ "length hp"]) simp
      next
        case False
        then have "undoLoop rules user L (gp, hp, c + 1, if color m = user then u + 1 else u) = (g', h', c', u')"
          using snoc.prems step by simp
        from snoc.IH[OF this] obtain k where "h' = take k hp" by blast
        then have "h' = take (min k (length hp)) (hp @ [x])" by (simp add: min_def)
        then show ?thesis by blast
      qed
    qed
  qed
qed

lemma inv_undo:
  assumes "normalizedLog (moveHistoryUci st)"
  shows "normalizedLog (moveHistoryUci (undoLastAttempt rules st))"
proof (cases "sessionConfig st")
  case None
  then show ?thesis using assms by (simp add: undoLastAttempt_def)
next
  case (Some c)
  let ?L = "length (seedMoves (openingPreset c))"
  show ?thesis
  proof (cases "length (moveHistoryUci st) \<le> ?L")
    case True
    then show ?thesis using assms Some by (simp add: undoLastAttempt_def)
  next
    case False
    show ?thesis
    proof (cases "replayHistory rules newChess (moveHistoryUci st)")
      case None
      then show ?thesis using assms Some False by (simp add: undoLastAttempt_def Let_def)
    next
      case (Some g)
      obtain g' h' c' u' where l: "undoLoop rules (userColor (openingPreset c)) ?L
         (g, moveHistoryUci st, 0, 0) = (g', h', c', u')" by (metis prod_cases4)
      from undoLoop_prefix[OF l] obtain k where "h' = take k (moveHistoryUci st)" by blast
      then have "normalizedLog h'" using assms normalizedLog_take by simp
      then show ?thesis using assms \<open>sessionConfig st = Some c\<close> False Some l
        by (simp add: undoLastAttempt_def Let_def)
    qed
  qed
qed

lemma inv_drop:
  assumes "onPieceDrop rules pieceType source target st = (accepted, st', new)"
  shows "(if accepted then \<exists>t. moveHistoryUci st' = moveHistoryUci st @ [t] \<and> castlingNormalized t
          else moveHistoryUci st' = moveHistoryUci st)
         \<and> (normalizedLog (moveHistoryUci st) \<longrightarrow> (\<forall>p \<in> set new. pendingOk p))"
  using assms
  by (auto simp: onPieceDrop_def scoreUserMove_def pendingOk_def Let_def
      split: option.splits if_splits)

lemma inv_delayedBot:
  assumes "(if sid \<noteq> sessionIdRef st then (st, []) else playBotMove g h c sid st) = (st', new)"
    "normalizedLog h"
  shows "moveHistoryUci st' = moveHistoryUci st \<and> (\<forall>p \<in> set new. pendingOk p)"
proof (cases "sid \<noteq> sessionIdRef st")
  case True
  then show ?thesis using assms by auto
next
  case False
  then have "playBotMove g h c sid st = (st', new)" using assms(1) by simp
  from inv_playBotMove[OF this assms(2)] show ?thesis .
qed

lemma inv_resumeFetch:
  assumes "resumeFetch rules random cancelled p outcome st = (st', new)"
    "pendingOk (AwaitFetch p)" "normalizedLog (moveHistoryUci st)"
  shows "normalizedLog (moveHistoryUci st') \<and> (\<forall>q \<in> set new. pendingOk q)"
proof (cases p)
  case (PlayBotMoveFetch g h c sid)
  then have "playBotMoveSettled rules random g h c sid outcome st = (st', new)"
    and h: "normalizedLog h"
    using assms(1,2) by (simp_all add: resumeFetch_def pendingOk_def)
  from log_botSettled[OF this(1)] h assms(3) show ?thesis by auto
next
  case (ScoreUserMoveFetch before g nxt mv c sid)
  then have "scoreUserMoveSettled rules before g nxt mv c sid outcome st = (st', new)"
    and h: "normalizedLog nxt"
    using assms(1,2) by (simp_all add: resumeFetch_def pendingOk_def)
  from inv_scoreSettled[OF this] assms(3) show ?thesis by simp
next
  case (RequestHintFetch h c sid)
  then have "requestHintSettled c sid outcome st = (st', new)"
    using assms(1) by (simp add: resumeFetch_def)
  from inv_hintSettled[OF this] assms(3) show ?thesis by simp
next
  case (PositionGamesFetch h c sid)
  then have "positionGamesSettled cancelled sid outcome st = (st', new)"
    using assms(1) by (simp add: resumeFetch_def)
  from inv_positionSettled[OF this] assms(3) show ?thesis by simp
qed

lemma inv_resumeDelay:
  assumes "resumeDelay rules p st = (st', new)"
    "pendingOk (AwaitDelay p)" "normalizedLog (moveHistoryUci st)"
  shows "normalizedLog (moveHistoryUci st') \<and> (\<forall>q \<in> set new. pendingOk q)"
proof (cases p)
  case (ScoreUserMoveDelay g h c sid)
  then have "(if sid \<noteq> sessionIdRef st then (st, []) else playBotMove g h c sid st) = (st', new)"
    and h: "normalizedLog h"
    using assms(1,2) by (simp_all add: resumeDelay_def scoreUserMoveDelayed_def pendingOk_def)
  from inv_delayedBot[OF this] assms(3) show ?thesis by simp
next
  case (SeedDelay index g h c sid)
  then have "seedLoop rules index g h c sid st = (st', new)"
    and h: "normalizedLog h" "openingPreset c \<in> set OPENINGS"
    using assms(1,2) by (simp_all add: resumeDelay_def pendingOk_def)
  from log_seedLoop[OF this(1) h(2)] h(1) assms(3) show ?thesis by auto
next
  case (StartPracticeDelay g h c sid)
  then have "(if sid \<noteq> sessionIdRef st then (st, []) else playBotMove g h c sid st) = (st', new)"
    and h: "normalizedLog h"
    using assms(1,2) by (simp_all add: resumeDelay_def startPracticeDelayed_def pendingOk_def)
  from inv_delayedBot[OF this] assms(3) show ?thesis by simp
qed

lemma reachable_invariant:
  assumes "reachable rules (st, ps)"
  shows "normalizedLog (moveHistoryUci st) \<and> (\<forall>p \<in> set ps. pendingOk p)"
  using assms
proof (induction "(st, ps)" arbitrary: st ps rule: reachable.induct)
  case initial
  then show ?case by (simp add: initialSession_def)
next
  case (started st ps selectedOpeningId safeElo safePercent flag st' launched)
  from inv_startPractice[OF started(3)] started(2) show ?case by auto
next
  case (dropped st ps pieceType sourceSquare targetSquare accepted st' launched)
  from inv_drop[OF dropped(3)] dropped(2) show ?case by (auto split: if_splits)
next
  case (hinted st ps st' launched)
  from inv_requestHint[OF hinted(3)] hinted(2) show ?case by auto
next
  case (undone st ps)
  then show ?case using inv_undo by simp
next
  case (reset st ps)
  then show ?case by simp
next
  case (effect st ps st' launched)
  from inv_effect[OF effect(3)] effect(2) show ?case by auto
next
  case (flashed st ps)
  then show ?case by simp
next
  case (settled st ps p random cancelled outcome st' launched)
  have "pendingOk (AwaitFetch p)" using settled(2,3) by simp
  from inv_resumeFetch[OF settled(4) this] settled(2)
  show ?case by (auto dest: notin_set_remove1)
next
  case (elapsed st ps p st' launched)
  have "pendingOk (AwaitDelay p)" using elapsed(2,3) by simp
  from inv_resumeDelay[OF elapsed(4) this] elapsed(2)
  show ?case by (auto dest: notin_set_remove1)
qed

subsection \<open>Stale continuations\<close>

lemma resumeFetch_stale:
  "fetchSessionId p \<noteq> sessionIdRef st \<Longrightarrow>
     resumeFetch rules random cancelled p outcome st = (st, [])"
  by (cases p; cases outcome)
     (simp_all add: fetchSessionId_def resumeFetch_def playBotMoveSettled_def playBotMoveTry_def
       playBotMoveCatch_def playBotMoveFinally_def scoreUserMoveSettled_def scoreUserMoveTry_def
       scoreUserMoveCatch_def requestHintSettled_def requestHintTry_def requestHintCatch_def
       requestHintFinally_def positionGamesSettled_def)

lemma resumeDelay_stale:
  "delaySessionId p \<noteq> sessionIdRef st \<Longrightarrow> resumeDelay rules p st = (st, [])"
  by (cases p)
     (simp_all add: delaySessionId_def resumeDelay_def scoreUserMoveDelayed_def seedLoop_def
        startPracticeFinally_def startPracticeAfterSeeding_def startPracticeDelayed_def Let_def)

text \<open>
  Claim C1: a continuation that captured a session identifier at launch (the completion or
  the error handler of a statistics query in \<open>playBotMove\<close>, \<open>scoreUserMove\<close>,
  \<open>requestHint\<close> or the position query, or the completion of a delay in \<open>scoreUserMove\<close>
  or \<open>startPractice\<close>) and runs when the current identifier is a different one leaves the
  whole session as it is (game, move log, status, review, accuracy tracker, flags) and
  launches nothing.
\<close>

theorem C1_stale_continuation_changes_nothing:
  "(fetchSessionId p \<noteq> sessionIdRef st \<longrightarrow>
      resumeFetch rules random cancelled p outcome st = (st, []))
   \<and> (delaySessionId q \<noteq> sessionIdRef st \<longrightarrow> resumeDelay rules q st = (st, []))"
  using resumeFetch_stale[of p st rules random cancelled outcome] resumeDelay_stale[of q st rules]
  by blast

theorem C1_witness:
  "resumeFetch permissiveRules (1 / 2) False
      (PlayBotMoveFetch newChess [] englishConfig 1) (Inr snapshot_5_95)
      (initialSession\<lparr>sessionIdRef := 2\<rparr>)
     = (initialSession\<lparr>sessionIdRef := 2\<rparr>, [])
   \<and> resumeDelay permissiveRules (SeedDelay 1 newChess [] englishConfig 1)
        (initialSession\<lparr>sessionIdRef := 2\<rparr>)
     = (initialSession\<lparr>sessionIdRef := 2\<rparr>, [])"
  using C1_stale_continuation_changes_nothing
    [of "PlayBotMoveFetch newChess [] englishConfig 1" "initialSession\<lparr>sessionIdRef := 2\<rparr>"
      permissiveRules "1 / 2" False "Inr snapshot_5_95" "SeedDelay 1 newChess [] englishConfig 1"]
  by (simp add: fetchSessionId_def delaySessionId_def)

subsection \<open>Accuracy tracker\<close>

lemma recordSample_display:
  "display (recordSample sample t) = min (display t) ((sum t + sample) / real (count t + 1))"
  by (simp add: recordSample_def Let_def)

lemma recordAccuracySample_display:
  "display (accuracyTracker (recordAccuracySample n st)) =
     min (display (accuracyTracker st))
       ((sum (accuracyTracker st) + accuracyFromGames (real n))
          / real (count (accuracyTracker st) + 1))"
  by (simp add: recordAccuracySample_def Let_def recordSample_display)

lemma recordAccuracySample_fold_display:
  "display (accuracyTracker (foldl (\<lambda>s n. recordAccuracySample n s) st ns))
     \<le> display (accuracyTracker st)"
proof (induction ns arbitrary: st)
  case Nil
  then show ?case by simp
next
  case (Cons n ns)
  have "display (accuracyTracker (recordAccuracySample n st)) \<le> display (accuracyTracker st)"
    by (simp add: recordAccuracySample_display)
  with Cons[of "recordAccuracySample n st"] show ?case by simp
qed

lemma clearSessionState_tracker:
  "accuracyTracker (clearSessionState msg st) = \<lparr>sum = 0, count = 0, display = 100\<rparr>"
  by (simp add: clearSessionState_def clearBrilliantHighlight_def)

text \<open>
  Claim C9: each sample recorded by \<open>recordAccuracySample\<close> sets the display to the
  minimum of the previous display and the new cumulative average, so over any sequence of
  recorded samples the display never increases; and a session reset (\<open>clearSessionState\<close>,
  which \<open>resetSession\<close> calls) restores the tracker to sum 0, count 0, display 100.
\<close>

theorem C9_display_never_increases:
  "(\<forall>n st. display (accuracyTracker (recordAccuracySample n st)) =
       min (display (accuracyTracker st))
         ((sum (accuracyTracker st) + accuracyFromGames (real n))
            / real (count (accuracyTracker st) + 1)))
   \<and> (\<forall>ns st. display (accuracyTracker (foldl (\<lambda>s n. recordAccuracySample n s) st ns))
         \<le> display (accuracyTracker st))
   \<and> (\<forall>msg st. accuracyTracker (clearSessionState msg st)
         = \<lparr>sum = 0, count = 0, display = 100\<rparr>)
   \<and> (\<forall>st. accuracyTracker (resetSession st) = \<lparr>sum = 0, count = 0, display = 100\<rparr>)"
  using recordAccuracySample_display recordAccuracySample_fold_display clearSessionState_tracker
  by (simp add: resetSession_def Let_def)

theorem C9_witness:
  "display (accuracyTracker
       (foldl (\<lambda>s n. recordAccuracySample n s) initialSession [20000, 5, 20000]))
     \<le> display (accuracyTracker initialSession)
   \<and> display (accuracyTracker (recordAccuracySample 5 (recordAccuracySample 20000 initialSession)))
       = 101 / 2
   \<and> accuracyTracker (resetSession (recordAccuracySample 5 initialSession))
       = \<lparr>sum = 0, count = 0, display = 100\<rparr>"
proof -
  note t = C9_display_never_increases
  have a: "display (accuracyTracker
       (foldl (\<lambda>s n. recordAccuracySample n s) initialSession [20000, 5, 20000]))
     \<le> display (accuracyTracker initialSession)"
    using t by blast
  have s1: "accuracyTracker (recordAccuracySample 20000 initialSession)
      = \<lparr>sum = 100, count = 1, display = 100\<rparr>"
    by (simp add: recordAccuracySample_def recordSample_def Let_def initialSession_def
        initialAccuracyTracker_def accuracyFromGames_def)
  have b: "display (accuracyTracker
        (recordAccuracySample 5 (recordAccuracySample 20000 initialSession))) = 101 / 2"
    using t[THEN conjunct1, rule_format, of 5 "recordAccuracySample 20000 initialSession"]
    by (simp add: s1 accuracyFromGames_def)
  have c: "accuracyTracker (resetSession (recordAccuracySample 5 initialSession))
       = \<lparr>sum = 0, count = 0, display = 100\<rparr>"
    using t by blast
  show ?thesis using a b c by blast
qed

subsection \<open>Undo\<close>



lemma english_preset:
  "seedMoves (openingPreset englishConfig) = [''c2c4'', ''e7e5'', ''b1c3'', ''g8f6'']"
  "userColor (openingPreset englishConfig) = W"
  by (simp_all add: englishConfig_def selectedOpening_def OPENINGS_def)

lemma permissive_move:
  "chessMove permissiveRules g (parseUci t) =
     Some (\<lparr>color = (if even (length (plies g)) then W else B),
            fromSquare = take 2 (normalizeCastlingUci t),
            toSquare = take 2 (drop 2 (normalizeCastlingUci t)),
            promotion = (if length (normalizeCastlingUci t) > 4
                         then Some (take 1 (drop 4 (normalizeCastlingUci t))) else None),
            Move.san = take 2 (normalizeCastlingUci t) @ take 2 (drop 2 (normalizeCastlingUci t))\<rparr>,
           \<lparr>plies = plies g @ [\<lparr>color = (if even (length (plies g)) then W else B),
            fromSquare = take 2 (normalizeCastlingUci t),
            toSquare = take 2 (drop 2 (normalizeCastlingUci t)),
            promotion = (if length (normalizeCastlingUci t) > 4
                         then Some (take 1 (drop 4 (normalizeCastlingUci t))) else None),
            Move.san = take 2 (normalizeCastlingUci t) @ take 2 (drop 2 (normalizeCastlingUci t))\<rparr>],
            remembered = remembered g + 1\<rparr>)"
  by (simp add: chessMove_def permissiveRules_def parseUci_def Let_def)

lemma permissive_replay_ok:
  "\<exists>g'. replayHistory permissiveRules g h = Some g' \<and> length (plies g') = length (plies g) + length h"
proof (induction h arbitrary: g)
  case Nil then show ?case by simp
next
  case (Cons t h)
  obtain m g1 where s: "chessMove permissiveRules g (parseUci t) = Some (m, g1)" "length (plies g1) = length (plies g) + 1"
    using permissive_move[of g t] by simp
  from Cons[of g1] obtain g' where "replayHistory permissiveRules g1 h = Some g'" "length (plies g') = length (plies g1) + length h" by blast
  then show ?case using s by simp
qed







lemma tracking_simps [simp]:
  "turn pieceTrackingRules g = (if even (length (plies g)) then W else B)"
  "isGameOver pieceTrackingRules g = False"
  by (simp_all add: pieceTrackingRules_def)




















subsection \<open>Castling-normalized move log\<close>

lemma castlingNormalized_not_castling:
  "castlingNormalized t \<Longrightarrow> t \<notin> {''e1h1'', ''e1a1'', ''e8h8'', ''e8a8''}"
  using normalize_not_castle[of t] by (simp add: castlingNormalized_def)

lemma normalize_castling_four:
  "normalizeCastlingUci ''e1h1'' = ''e1g1''" "normalizeCastlingUci ''e1a1'' = ''e1c1''"
  "normalizeCastlingUci ''e8h8'' = ''e8g8''" "normalizeCastlingUci ''e8a8'' = ''e8c8''"
  by (simp_all add: normalizeCastlingUci_def toLowerCase_def lowerChar_def)

lemma english_selected:
  "selectedOpening ''english-opening'' =
     \<lparr>id = ''english-opening'', name = ''English Opening'', description = ''1. c4 e5 2. Nc3 Nf6'',
      seedMoves = [''c2c4'', ''e7e5'', ''b1c3'', ''g8f6''], userColor = W\<rparr>"
  by (simp add: selectedOpening_def OPENINGS_def)

lemma english_first_step:
  "moveHistoryUci (fst (startPractice permissiveRules ''english-opening'' 1500 10 False initialSession)) = [''c2c4'']"
  by (simp add: startPractice_def seedLoop_def Let_def english_selected permissive_move
       initialSession_def clearBrilliantHighlight_def)

lemma english_drop:
  "fst (onPieceDrop permissiveRules ''wK'' ''e1'' (Some ''h1'') (sessionWithLog (take 4 practiceLog)))"
  "moveHistoryUci (fst (snd (onPieceDrop permissiveRules ''wK'' ''e1'' (Some ''h1'')
      (sessionWithLog (take 4 practiceLog))))) = take 4 practiceLog @ [''e1g1'']"
proof -
  obtain g where g: "replayHistory permissiveRules newChess (take 4 practiceLog) = Some g"
    "length (plies g) = 4"
    using permissive_replay_ok[of newChess "take 4 practiceLog"]
    by (auto simp: newChess_def practiceLog_def)
  have s: "sessionWithLog (take 4 practiceLog) =
     initialSession\<lparr>sessionIdRef := 1, sessionConfig := Some englishConfig,
                    game := chessFromFen g, moveHistoryUci := take 4 practiceLog\<rparr>"
    using g by (simp add: sessionWithLog_def)
  have m: "attempt permissiveRules (chessFromFen g) (''e1'', ''h1'', None) =
     Some \<lparr>color = W, fromSquare = ''e1'', toSquare = ''h1'', promotion = None, Move.san = ''e1h1''\<rparr>"
    using g(2) by (simp add: permissiveRules_def chessFromFen_def)
  have t: "turn permissiveRules (chessFromFen g) = W" "\<not> isGameOver permissiveRules (chessFromFen g)"
    using g(2) by (simp_all add: permissiveRules_def chessFromFen_def)
  have u: "toUci \<lparr>color = W, fromSquare = ''e1'', toSquare = ''h1'', promotion = None, Move.san = ''e1h1''\<rparr> = ''e1g1''"
    by (simp add: toUci_def normalize_castling_four)
  have f: "chessFromFen (chessFromFen g) = chessFromFen g" by (simp add: chessFromFen_def)
  have e: "endsWith (toLowerCase ''wK'') CHR ''p'' = False"
    by (simp add: endsWith_def toLowerCase_def lowerChar_def)
  show "fst (onPieceDrop permissiveRules ''wK'' ''e1'' (Some ''h1'') (sessionWithLog (take 4 practiceLog)))"
    unfolding s
    by (simp add: onPieceDrop_def initialSession_def english_preset t m u e f chessMove_def
        scoreUserMove_def clearBrilliantHighlight_def Let_def)
  show "moveHistoryUci (fst (snd (onPieceDrop permissiveRules ''wK'' ''e1'' (Some ''h1'')
      (sessionWithLog (take 4 practiceLog))))) = take 4 practiceLog @ [''e1g1'']"
    unfolding s
    by (simp add: onPieceDrop_def initialSession_def english_preset t m u e f chessMove_def
        scoreUserMove_def clearBrilliantHighlight_def Let_def)
qed

text \<open>
  Claim C8: every token of the move log is castling-normalized. In every reachable state of
  the controller each token of \<open>moveHistoryUci\<close> is a fixed point of
  \<open>normalizeCastlingUci\<close> and none of \<open>e1h1\<close>, \<open>e1a1\<close>, \<open>e8h8\<close>, \<open>e8a8\<close>; the three
  ways a token is appended each append a normalized one: a seeding step of a catalog preset
  (the token is stored as the preset has it, and every seed token of \<open>OPENINGS\<close> is
  already normalized), an accepted user move (through \<open>toUci\<close>) and an applied bot move
  (through \<open>normalizeCastlingUci\<close>). \<open>normalizeCastlingUci\<close> always yields a normalized
  token and rewrites the four castling encodings to \<open>e1g1\<close>, \<open>e1c1\<close>, \<open>e8g8\<close>, \<open>e8c8\<close>.
\<close>

theorem C8_log_tokens_castling_normalized:
  "(\<forall>rules st ps. reachable rules (st, ps) \<longrightarrow>
      (\<forall>t \<in> set (moveHistoryUci st).
          castlingNormalized t \<and> t \<notin> {''e1h1'', ''e1a1'', ''e8h8'', ''e8a8''}))
   \<and> (\<forall>rules index g h c sid st st' new.
        openingPreset c \<in> set OPENINGS
        \<and> seedLoop rules index g h c sid st = (st', new) \<longrightarrow>
          moveHistoryUci st' = moveHistoryUci st
          \<or> (\<exists>t. moveHistoryUci st' = h @ [t] \<and> castlingNormalized t))
   \<and> (\<forall>rules pieceType source target st st' new.
        onPieceDrop rules pieceType source target st = (True, st', new) \<longrightarrow>
          (\<exists>t. moveHistoryUci st' = moveHistoryUci st @ [t] \<and> castlingNormalized t))
   \<and> (\<forall>rules random g h c sid outcome st st' new.
        playBotMoveSettled rules random g h c sid outcome st = (st', new) \<longrightarrow>
          moveHistoryUci st' = moveHistoryUci st
          \<or> (\<exists>t. moveHistoryUci st' = h @ [t] \<and> castlingNormalized t))
   \<and> (\<forall>u. castlingNormalized (normalizeCastlingUci u))
   \<and> normalizeCastlingUci ''e1h1'' = ''e1g1'' \<and> normalizeCastlingUci ''e1a1'' = ''e1c1''
   \<and> normalizeCastlingUci ''e8h8'' = ''e8g8'' \<and> normalizeCastlingUci ''e8a8'' = ''e8c8''"
proof -
  have A: "\<forall>rules st ps. reachable rules (st, ps) \<longrightarrow>
      (\<forall>t \<in> set (moveHistoryUci st).
          castlingNormalized t \<and> t \<notin> {''e1h1'', ''e1a1'', ''e8h8'', ''e8a8''})"
  proof (intro allI impI)
    fix rules st ps
    assume "reachable rules (st, ps)"
    from reachable_invariant[OF this] castlingNormalized_not_castling
    show "\<forall>t \<in> set (moveHistoryUci st).
          castlingNormalized t \<and> t \<notin> {''e1h1'', ''e1a1'', ''e8h8'', ''e8a8''}"
      unfolding normalizedLog_def by blast
  qed
  have B: "\<forall>rules index g h c sid st st' new.
        openingPreset c \<in> set OPENINGS
        \<and> seedLoop rules index g h c sid st = (st', new) \<longrightarrow>
          moveHistoryUci st' = moveHistoryUci st
          \<or> (\<exists>t. moveHistoryUci st' = h @ [t] \<and> castlingNormalized t)"
    using log_seedLoop by blast
  have C: "\<forall>rules pieceType source target st st' new.
        onPieceDrop rules pieceType source target st = (True, st', new) \<longrightarrow>
          (\<exists>t. moveHistoryUci st' = moveHistoryUci st @ [t] \<and> castlingNormalized t)"
  proof (intro allI impI)
    fix rules pieceType source target st st' new
    assume "onPieceDrop rules pieceType source target st = (True, st', new)"
    from inv_drop[OF this]
    show "\<exists>t. moveHistoryUci st' = moveHistoryUci st @ [t] \<and> castlingNormalized t" by simp
  qed
  have D: "\<forall>rules random g h c sid outcome st st' new.
        playBotMoveSettled rules random g h c sid outcome st = (st', new) \<longrightarrow>
          moveHistoryUci st' = moveHistoryUci st
          \<or> (\<exists>t. moveHistoryUci st' = h @ [t] \<and> castlingNormalized t)"
    using log_botSettled by blast
  have E: "\<forall>u. castlingNormalized (normalizeCastlingUci u)"
    by (simp add: castlingNormalized_normalize)
  show ?thesis
    by (intro conjI A B C D E normalize_castling_four)
qed

theorem C8_witness:
  "moveHistoryUci (fst (startPractice permissiveRules ''english-opening'' 1500 10 False
      initialSession)) = [''c2c4'']
   \<and> castlingNormalized (hd (moveHistoryUci (fst (startPractice permissiveRules
        ''english-opening'' 1500 10 False initialSession))))
   \<and> fst (onPieceDrop permissiveRules ''wK'' ''e1'' (Some ''h1'')
        (sessionWithLog (take 4 practiceLog)))
   \<and> moveHistoryUci (fst (snd (onPieceDrop permissiveRules ''wK'' ''e1'' (Some ''h1'')
        (sessionWithLog (take 4 practiceLog))))) = take 4 practiceLog @ [''e1g1'']
   \<and> castlingNormalized (last (moveHistoryUci (fst (snd (onPieceDrop permissiveRules ''wK''
        ''e1'' (Some ''h1'') (sessionWithLog (take 4 practiceLog)))))))"
proof -
  let ?start = "startPractice permissiveRules ''english-opening'' 1500 10 False initialSession"
  let ?drop = "onPieceDrop permissiveRules ''wK'' ''e1'' (Some ''h1'')
        (sessionWithLog (take 4 practiceLog))"
  have r: "reachable permissiveRules (fst ?start, [] @ snd ?start)"
    by (rule reachable.started[OF reachable.initial]) simp
  have a: "moveHistoryUci (fst ?start) = [''c2c4'']" by (rule english_first_step)
  have b: "castlingNormalized (hd (moveHistoryUci (fst ?start)))"
    using C8_log_tokens_castling_normalized[THEN conjunct1, rule_format, OF r, of "hd (moveHistoryUci (fst ?start))"] a
    by simp
  have d: "?drop = (True, fst (snd ?drop), snd (snd ?drop))"
    using english_drop(1) by (simp add: prod_eq_iff)
  from C8_log_tokens_castling_normalized[THEN conjunct2, THEN conjunct2, THEN conjunct1, rule_format, OF d]
  obtain t where t: "moveHistoryUci (fst (snd ?drop))
      = moveHistoryUci (sessionWithLog (take 4 practiceLog)) @ [t]" "castlingNormalized t"
    by blast
  then have c: "castlingNormalized (last (moveHistoryUci (fst (snd ?drop))))" by simp
  show ?thesis using a b c english_drop by blast
qed

end
